theory Spec2Isabelle
  imports
    Complex_Main
    "HOL-Library.Word"
    "HOL-Library.Char_ord"
    "HOL-Library.List_Lexorder"
    "HOL-Library.AList"
begin

unbundle bit_operations_syntax

section \<open>netsuite-shim: retry, token cache, error classification, pagination, signing\<close>

text \<open>
  A shallow embedding of the Python package \<^verbatim>\<open>netsuite_shim\<close>. Conventions used throughout:
  \<^item> Python \<^verbatim>\<open>str\<close> and \<^verbatim>\<open>bytes\<close> are \<^typ>\<open>string\<close>: the list of the UTF-8 bytes of the text.
  \<^item> A Python \<^verbatim>\<open>float\<close> that the package reads (a clock reading, the configured backoff
    factor, a parsed \<^verbatim>\<open>Retry-After\<close> value) is the \<^typ>\<open>real\<close> number that the finite
    double denotes. A \<^verbatim>\<open>float\<close> that the package computes is a \<open>pyfloat\<close>: such a real, or
    an infinity.
  \<^item> Python \<^verbatim>\<open>int\<close> is \<^typ>\<open>int\<close>.
  \<^item> \<^verbatim>\<open>None\<close> is \<^term>\<open>None\<close>; an exception is a value of a sum or option type.
  \<^item> A leading underscore of a Python name is dropped (\<^verbatim>\<open>_is_token_valid\<close> is
    \<open>is_token_valid\<close>), since an Isabelle name starts with a letter.
\<close>

subsection \<open>\<^verbatim>\<open>auth/oauth2.py\<close>: the cached access token\<close>

text \<open>
  The two attributes of \<^verbatim>\<open>OAuth2Auth\<close> that make up the token cache. The constructor sets
  \<^verbatim>\<open>_access_token = None\<close> and \<^verbatim>\<open>_expires_at = 0.0\<close>.
\<close>

record OAuth2Auth =
  access_token :: "string option"
  expires_at :: real

definition OAuth2Auth_init :: OAuth2Auth where
  "OAuth2Auth_init = \<lparr>access_token = None, expires_at = 0\<rparr>"

text \<open>
  \<^verbatim>\<open>
  def _is_token_valid(self):
      return self._access_token is not None and time.time() < (self._expires_at - 60)
  \<close>
  The clock reading \<^verbatim>\<open>time.time()\<close> is the argument \<open>now\<close>.
\<close>

definition is_token_valid :: "OAuth2Auth \<Rightarrow> real \<Rightarrow> bool" where
  "is_token_valid self now \<longleftrightarrow> access_token self \<noteq> None \<and> now < expires_at self - 60"

subsection \<open>\<^verbatim>\<open>_retry.py\<close>: the \<^verbatim>\<open>Retry-After\<close> header\<close>

text \<open>
  What \<^verbatim>\<open>response.json()\<close> returns: a decoded JSON document. A Python \<^verbatim>\<open>dict\<close> is the list
  of its items (keys distinct); \<^verbatim>\<open>{}\<close> is \<^term>\<open>JObject []\<close>.
\<close>

datatype json =
    JNull
  | JBool bool
  | JInt int
  | JFloat real
  | JString string
  | JArray "json list"
  | JObject "(string \<times> json) list"

text \<open>
  An \<^verbatim>\<open>httpx.Response\<close> as the package observes it: \<^verbatim>\<open>status_code\<close>, the header
  lookup \<^verbatim>\<open>headers.get(name)\<close>, the raw \<^verbatim>\<open>content\<close>, and the result of \<^verbatim>\<open>json()\<close>, which is
  \<^term>\<open>None\<close> when the decoder raises.
\<close>

record response =
  status_code :: int
  headers :: "string \<rightharpoonup> string"
  content :: string
  json_body :: "json option"

text \<open>
  \<^verbatim>\<open>
  def parse_retry_after(response):
      raw = response.headers.get("Retry-After")
      if raw is None:
          return None
      try:
          return float(raw)
      except ValueError:
          return None
  \<close>
  The builtin \<^verbatim>\<open>float\<close> is the parameter \<open>py_float\<close>; \<^term>\<open>None\<close> is its \<^verbatim>\<open>ValueError\<close>.
\<close>

definition parse_retry_after :: "(string \<Rightarrow> real option) \<Rightarrow> response \<Rightarrow> real option" where
  "parse_retry_after py_float response =
     (case headers response ''Retry-After'' of
        None \<Rightarrow> None
      | Some raw \<Rightarrow> py_float raw)"

subsection \<open>\<^verbatim>\<open>models.py\<close>: the error payload\<close>

record NetSuiteErrorDetail =
  d_detail :: string
  d_error_code :: string
  d_error_path :: "string option"

record NetSuiteErrorResponse =
  er_type :: string
  er_title :: string
  er_status :: int
  er_error_code :: string
  er_error_details :: "NetSuiteErrorDetail list"

text \<open>\<^verbatim>\<open>d.model_dump()\<close>: the dictionary of a detail entry, keyed by field name.\<close>

definition model_dump :: "NetSuiteErrorDetail \<Rightarrow> (string \<times> json) list" where
  "model_dump d =
     [(''detail'', JString (d_detail d)),
      (''error_code'', JString (d_error_code d)),
      (''error_path'', (case d_error_path d of None \<Rightarrow> JNull | Some p \<Rightarrow> JString p))]"

subsection \<open>\<^verbatim>\<open>exceptions.py\<close>\<close>

datatype exc_class =
    NetSuiteError
  | AuthenticationError
  | AuthorizationError
  | NotFoundError
  | ValidationError
  | ConcurrencyLimitError
  | ServerError
  | ConfigurationError

text \<open>
  An exception object: its class, the message given to \<^verbatim>\<open>Exception.__init__\<close>, and the
  attributes the constructors set. Only \<^verbatim>\<open>ConcurrencyLimitError.__init__\<close> sets
  \<^verbatim>\<open>retry_after\<close>; for every other class the field is \<^term>\<open>None\<close>.
\<close>

record netsuite_exc =
  exc_class :: exc_class
  message :: string
  status :: "int option"
  error_code :: "string option"
  error_details :: "(string \<times> json) list list"
  retry_after :: "real option"

text \<open>
  \<^verbatim>\<open>
  def __init__(self, message, *, status=None, error_code=None, error_details=None):
      super().__init__(message)
      self.status = status
      self.error_code = error_code
      self.error_details = error_details or []
  \<close>
  The class \<open>cls\<close> is one of those that inherit this constructor.
\<close>

definition NetSuiteError_init ::
  "exc_class \<Rightarrow> string \<Rightarrow> int option \<Rightarrow> string option \<Rightarrow> (string \<times> json) list list option
     \<Rightarrow> netsuite_exc" where
  "NetSuiteError_init cls msg st code details =
     \<lparr>exc_class = cls, message = msg, status = st, error_code = code,
      error_details = (case details of None \<Rightarrow> [] | Some ds \<Rightarrow> ds),
      retry_after = None\<rparr>"

text \<open>
  \<^verbatim>\<open>
  def __init__(self, message, *, retry_after=None, **kwargs):
      super().__init__(message, **kwargs)
      self.retry_after = retry_after
  \<close>
\<close>

definition ConcurrencyLimitError_init ::
  "string \<Rightarrow> real option \<Rightarrow> int option \<Rightarrow> string option \<Rightarrow> (string \<times> json) list list option
     \<Rightarrow> netsuite_exc" where
  "ConcurrencyLimitError_init msg ra st code details =
     (NetSuiteError_init ConcurrencyLimitError msg st code details)\<lparr>retry_after := ra\<rparr>"

definition STATUS_EXCEPTION_MAP :: "int \<rightharpoonup> exc_class" where
  "STATUS_EXCEPTION_MAP =
     map_of
       [(400, ValidationError),
        (401, AuthenticationError),
        (403, AuthorizationError),
        (404, NotFoundError),
        (429, ConcurrencyLimitError),
        (500, ServerError),
        (502, ServerError),
        (503, ServerError)]"

subsection \<open>\<^verbatim>\<open>client.py\<close>: error parsing\<close>

text \<open>Python's \<^verbatim>\<open>str\<close> of an \<^verbatim>\<open>int\<close>, as the f-string \<^verbatim>\<open>f"HTTP {response.status_code}"\<close> formats it.\<close>

fun str_nat :: "nat \<Rightarrow> string" where
  "str_nat n =
     (if n < 10 then [''0123456789'' ! n]
      else str_nat (n div 10) @ [''0123456789'' ! (n mod 10)])"

declare str_nat.simps [simp del]

definition str_int :: "int \<Rightarrow> string" where
  "str_int i = (if i < 0 then CHR ''-'' # str_nat (nat (- i)) else str_nat (nat i))"

text \<open>
  \<^verbatim>\<open>
  @staticmethod
  def _build_exception(response):
      try:
          body = response.json()
          error_resp = NetSuiteErrorResponse.model_validate(body)
      except Exception:
          return NetSuiteError(f"HTTP {response.status_code}", status=response.status_code)

      exc_class = STATUS_EXCEPTION_MAP.get(response.status_code, NetSuiteError)
      kwargs = {
          "status": error_resp.status or response.status_code,
          "error_code": error_resp.error_code,
          "error_details": [d.model_dump() for d in error_resp.error_details],
      }
      if exc_class is ConcurrencyLimitError:
          kwargs["retry_after"] = parse_retry_after(response)
      return exc_class(error_resp.title or f"HTTP {response.status_code}", **kwargs)
  \<close>
  The validation of the decoded body by the pydantic model is the parameter
  \<open>model_validate\<close>; \<^term>\<open>None\<close> is its \<^verbatim>\<open>ValidationError\<close>.
\<close>

definition build_exception ::
  "(json \<Rightarrow> NetSuiteErrorResponse option) \<Rightarrow> (string \<Rightarrow> real option) \<Rightarrow> response
     \<Rightarrow> netsuite_exc" where
  "build_exception model_validate py_float response =
     (case Option.bind (json_body response) model_validate of
        None \<Rightarrow>
          NetSuiteError_init NetSuiteError (''HTTP '' @ str_int (status_code response))
            (Some (status_code response)) None None
      | Some error_resp \<Rightarrow>
          (let cls = (case STATUS_EXCEPTION_MAP (status_code response) of
                        Some c \<Rightarrow> c
                      | None \<Rightarrow> NetSuiteError);
               st = (if er_status error_resp \<noteq> 0 then er_status error_resp
                     else status_code response);
               code = er_error_code error_resp;
               details = map model_dump (er_error_details error_resp);
               msg = (if er_title error_resp \<noteq> [] then er_title error_resp
                      else ''HTTP '' @ str_int (status_code response))
           in if cls = ConcurrencyLimitError
              then ConcurrencyLimitError_init msg (parse_retry_after py_float response)
                     (Some st) (Some code) (Some details)
              else NetSuiteError_init cls msg (Some st) (Some code) (Some details)))"


subsection \<open>\<^verbatim>\<open>client.py\<close>: the request pipeline\<close>

text \<open>The two fields of \<^verbatim>\<open>NetSuiteConfig\<close> that the request pipeline reads.\<close>

record NetSuiteConfig =
  max_retries :: int
  retry_backoff_factor :: real

text \<open>
  A \<^verbatim>\<open>float\<close> that the package computes: a finite double, given by the real number it
  denotes, or an infinity. The two zeros are one value here, and no operation below yields
  a NaN.
\<close>

datatype pyfloat = Finite real | PosInf | NegInf

text \<open>
  What one logical request does to the world: the number of physical HTTP calls made so
  far, and the durations it asked to sleep, oldest first.
\<close>

record effects =
  calls :: nat
  sleeps :: "pyfloat list"

text \<open>
  How a logical request can end without a result: with the classified error, with the
  decoder's error that \<^verbatim>\<open>response.json()\<close> raises on the success path, with the
  \<^verbatim>\<open>ValueError\<close> that \<^verbatim>\<open>time.sleep\<close> raises for a negative duration, with the
  \<^verbatim>\<open>OverflowError\<close> of a float conversion, or by never returning (a sleep without end).
\<close>

datatype failure =
    Raised netsuite_exc
  | JSONDecodeError
  | ValueError
  | OverflowError
  | NeverReturns

subsection \<open>\<^verbatim>\<open>_retry.py\<close>: backoff\<close>

text \<open>Rounding to the nearest integer, ties to the even one.\<close>

definition round_half_even :: "real \<Rightarrow> int" where
  "round_half_even x =
     (let n = \<lfloor>x\<rfloor>; d = x - of_int n
      in if d < 1 / 2 then n
         else if 1 / 2 < d then n + 1
         else if even n then n else n + 1)"

text \<open>
  The product \<^verbatim>\<open>x * p\<close> of two doubles when \<open>p\<close> is a power of two or zero, in IEEE 754
  binary64 arithmetic with rounding to nearest, ties to even. The exact product has the
  significand of \<open>x\<close>, so it is a double when its magnitude is in the normal range
  \<open>[2 ^ -1022, 2 ^ 1024)\<close>; from \<open>2 ^ 1024\<close> on the result is an infinity; below
  \<open>2 ^ -1022\<close> the doubles are the multiples of \<open>2 ^ -1074\<close>, and the product is rounded to
  one of them.
\<close>

definition float_mul_pow2 :: "real \<Rightarrow> real \<Rightarrow> pyfloat" where
  "float_mul_pow2 x p =
     (let y = x * p
      in if 2 ^ 1024 \<le> y then PosInf
         else if y \<le> - (2 ^ 1024) then NegInf
         else if 1 / 2 ^ 1022 \<le> \<bar>y\<bar> then Finite y
         else Finite (of_int (round_half_even (y * 2 ^ 1074)) / 2 ^ 1074))"

text \<open>
  \<^verbatim>\<open>
  def calculate_backoff(attempt, retry_after, backoff_factor=1.0):
      if retry_after is not None:
          return retry_after
      return backoff_factor * (2**attempt)
  \<close>
  For an exponent that is not negative, \<^verbatim>\<open>2**attempt\<close> is an \<^verbatim>\<open>int\<close>, which the product
  with a \<^verbatim>\<open>float\<close> first converts to a \<^verbatim>\<open>float\<close>: exactly up to \<open>2 ^ 1023\<close>, and with an
  \<^verbatim>\<open>OverflowError\<close> from \<open>2 ^ 1024\<close> on. For a negative exponent \<^verbatim>\<open>2**attempt\<close> is the
  \<^verbatim>\<open>float\<close> power: \<open>2 ^ attempt\<close> down to \<open>2 ^ -1074\<close>, and \<open>0.0\<close> below. The argument
  \<^verbatim>\<open>retry_after\<close> is \<open>retry_after_hint\<close> here.
\<close>

definition calculate_backoff :: "int \<Rightarrow> real option \<Rightarrow> real \<Rightarrow> failure + pyfloat" where
  "calculate_backoff attempt retry_after_hint backoff_factor =
     (case retry_after_hint of
        Some r \<Rightarrow> Inr (Finite r)
      | None \<Rightarrow>
          if 0 \<le> attempt then
            (if 1024 \<le> attempt then Inl OverflowError
             else Inr (float_mul_pow2 backoff_factor (2 ^ nat attempt)))
          else
            Inr (float_mul_pow2 backoff_factor
                   (if - 1074 \<le> attempt then 2 powi attempt else 0)))"

subsection \<open>\<^verbatim>\<open>client.py\<close>: the request loop\<close>

text \<open>
  \<^verbatim>\<open>time.sleep(wait)\<close> raises \<^verbatim>\<open>ValueError\<close> for a negative duration and \<^verbatim>\<open>OverflowError\<close>
  for an infinite one. \<^verbatim>\<open>asyncio.sleep(wait)\<close> returns at once for a duration that is not
  positive, and never for the positive infinity.
\<close>

fun time_sleep :: "pyfloat \<Rightarrow> effects \<Rightarrow> failure + effects" where
  "time_sleep (Finite wait) eff =
     (if wait < 0 then Inl ValueError else Inr (eff\<lparr>sleeps := sleeps eff @ [Finite wait]\<rparr>))"
| "time_sleep PosInf eff = Inl OverflowError"
| "time_sleep NegInf eff = Inl OverflowError"

fun asyncio_sleep :: "pyfloat \<Rightarrow> effects \<Rightarrow> failure + effects" where
  "asyncio_sleep (Finite wait) eff = Inr (eff\<lparr>sleeps := sleeps eff @ [Finite wait]\<rparr>)"
| "asyncio_sleep NegInf eff = Inr (eff\<lparr>sleeps := sleeps eff @ [NegInf]\<rparr>)"
| "asyncio_sleep PosInf eff = Inl NeverReturns"

text \<open>
  The body shared by \<^verbatim>\<open>_request_sync\<close> and \<^verbatim>\<open>_request_async\<close>, which differ in the sleep
  they call and in nothing else:
  \<^verbatim>\<open>
  last_exc = None
  for attempt in range(self._config.max_retries + 1):
      response = self._sync.request(method, path, params=params, json=json, headers=headers)
      if response.status_code < 400:
          if response.status_code == 204 or not response.content:
              return {}
          return response.json()
      exc = self._build_exception(response)
      if response.status_code == 429 and attempt < self._config.max_retries:
          retry_after = parse_retry_after(response)
          wait = calculate_backoff(attempt, retry_after, self._config.retry_backoff_factor)
          time.sleep(wait)
          last_exc = exc
          continue
      if response.status_code >= 500 and attempt < self._config.max_retries:
          wait = calculate_backoff(attempt, None, self._config.retry_backoff_factor)
          time.sleep(wait)
          last_exc = exc
          continue
      raise exc
  raise last_exc or NetSuiteError("Max retries exceeded")
  \<close>
  The server is \<open>send\<close>: the response to the \<open>k\<close>-th physical call, counted from 0. The
  loop variable is \<open>attempt\<close>; the loop ends when it leaves \<^verbatim>\<open>range(max_retries + 1)\<close>.
  An exception of \<^verbatim>\<open>calculate_backoff\<close> or of the sleep leaves the loop as it is raised.
\<close>

function request_loop ::
  "(pyfloat \<Rightarrow> effects \<Rightarrow> failure + effects) \<Rightarrow> (json \<Rightarrow> NetSuiteErrorResponse option)
     \<Rightarrow> (string \<Rightarrow> real option) \<Rightarrow> NetSuiteConfig \<Rightarrow> (nat \<Rightarrow> response)
     \<Rightarrow> int \<Rightarrow> netsuite_exc option \<Rightarrow> effects \<Rightarrow> (failure + json) \<times> effects" where
  "request_loop sleep model_validate py_float config send attempt last_exc eff =
     (if attempt < max_retries config + 1 then
        (let response = send (calls eff);
             eff1 = eff\<lparr>calls := calls eff + 1\<rparr>
         in if status_code response < 400 then
              (if status_code response = 204 \<or> content response = [] then (Inr (JObject []), eff1)
               else (case json_body response of
                       None \<Rightarrow> (Inl JSONDecodeError, eff1)
                     | Some body \<Rightarrow> (Inr body, eff1)))
            else
              (let exc = build_exception model_validate py_float response
               in if status_code response = 429 \<and> attempt < max_retries config then
                    (let retry_after = parse_retry_after py_float response
                     in case calculate_backoff attempt retry_after
                               (retry_backoff_factor config) of
                          Inl err \<Rightarrow> (Inl err, eff1)
                        | Inr wait \<Rightarrow>
                            (case sleep wait eff1 of
                               Inl err \<Rightarrow> (Inl err, eff1)
                             | Inr eff2 \<Rightarrow>
                                 request_loop sleep model_validate py_float config send
                                   (attempt + 1) (Some exc) eff2))
                  else if status_code response \<ge> 500 \<and> attempt < max_retries config then
                    (case calculate_backoff attempt None (retry_backoff_factor config) of
                       Inl err \<Rightarrow> (Inl err, eff1)
                     | Inr wait \<Rightarrow>
                         (case sleep wait eff1 of
                            Inl err \<Rightarrow> (Inl err, eff1)
                          | Inr eff2 \<Rightarrow>
                              request_loop sleep model_validate py_float config send
                                (attempt + 1) (Some exc) eff2))
                  else (Inl (Raised exc), eff1)))
      else
        (Inl (Raised (case last_exc of
                        Some e \<Rightarrow> e
                      | None \<Rightarrow> NetSuiteError_init NetSuiteError ''Max retries exceeded''
                                  None None None)),
         eff))"
  by pat_completeness auto
termination
  by (relation "measure (\<lambda>(sleep, model_validate, py_float, config, send, attempt, last_exc, eff).
        nat (max_retries config + 1 - attempt))") auto

declare request_loop.simps [simp del]

definition request_sync ::
  "(json \<Rightarrow> NetSuiteErrorResponse option) \<Rightarrow> (string \<Rightarrow> real option) \<Rightarrow> NetSuiteConfig
     \<Rightarrow> (nat \<Rightarrow> response) \<Rightarrow> (failure + json) \<times> effects" where
  "request_sync model_validate py_float config send =
     request_loop time_sleep model_validate py_float config send 0 None
       \<lparr>calls = 0, sleeps = []\<rparr>"

definition request_async ::
  "(json \<Rightarrow> NetSuiteErrorResponse option) \<Rightarrow> (string \<Rightarrow> real option) \<Rightarrow> NetSuiteConfig
     \<Rightarrow> (nat \<Rightarrow> response) \<Rightarrow> (failure + json) \<times> effects" where
  "request_async model_validate py_float config send =
     request_loop asyncio_sleep model_validate py_float config send 0 None
       \<lparr>calls = 0, sleeps = []\<rparr>"

subsection \<open>One iteration of the request loop\<close>

text \<open>
  The loop body read as a step, for the proofs below: what a response below 400 returns,
  when an attempt is retried, how long the pipeline then sleeps, and whether the attempt
  ends the request (\<open>Stop\<close>) or hands over to the next attempt (\<open>Again\<close>).
\<close>

definition success_result :: "response \<Rightarrow> failure + json" where
  "success_result r =
     (if status_code r = 204 \<or> content r = [] then Inr (JObject [])
      else (case json_body r of None \<Rightarrow> Inl JSONDecodeError | Some body \<Rightarrow> Inr body))"

definition retryable :: "NetSuiteConfig \<Rightarrow> response \<Rightarrow> int \<Rightarrow> bool" where
  "retryable config r attempt \<longleftrightarrow>
     (status_code r = 429 \<or> 500 \<le> status_code r) \<and> attempt < max_retries config"

definition wait_of ::
  "(string \<Rightarrow> real option) \<Rightarrow> NetSuiteConfig \<Rightarrow> response \<Rightarrow> int \<Rightarrow> failure + pyfloat" where
  "wait_of py_float config r attempt =
     calculate_backoff attempt
       (if status_code r = 429 then parse_retry_after py_float r else None)
       (retry_backoff_factor config)"

datatype step = Stop "failure + json" effects | Again netsuite_exc effects

definition attempt_outcome ::
  "(pyfloat \<Rightarrow> effects \<Rightarrow> failure + effects) \<Rightarrow> (json \<Rightarrow> NetSuiteErrorResponse option)
     \<Rightarrow> (string \<Rightarrow> real option) \<Rightarrow> NetSuiteConfig \<Rightarrow> (nat \<Rightarrow> response)
     \<Rightarrow> int \<Rightarrow> effects \<Rightarrow> step" where
  "attempt_outcome sleep model_validate py_float config send attempt eff =
     (let r = send (calls eff); eff1 = eff\<lparr>calls := calls eff + 1\<rparr>
      in if status_code r < 400 then Stop (success_result r) eff1
         else if retryable config r attempt then
           (case wait_of py_float config r attempt of
              Inl err \<Rightarrow> Stop (Inl err) eff1
            | Inr wait \<Rightarrow>
                (case sleep wait eff1 of
                   Inl err \<Rightarrow> Stop (Inl err) eff1
                 | Inr eff2 \<Rightarrow> Again (build_exception model_validate py_float r) eff2))
         else Stop (Inl (Raised (build_exception model_validate py_float r))) eff1)"


subsection \<open>\<^verbatim>\<open>_pagination.py\<close>\<close>

text \<open>
  The two fields of \<^verbatim>\<open>PaginatedResponse\<close> that the iterators read; an item is of any
  type \<open>'a\<close>.
\<close>

record 'a PaginatedResponse =
  items :: "'a list"
  has_more :: bool

text \<open>
  The attributes \<^verbatim>\<open>_limit\<close>, \<^verbatim>\<open>_offset\<close> and \<^verbatim>\<open>_exhausted\<close> of \<^verbatim>\<open>SyncPageIterator\<close> and of
  \<^verbatim>\<open>AsyncPageIterator\<close>, whose constructors are the same: \<^verbatim>\<open>_exhausted\<close> starts as
  \<^verbatim>\<open>False\<close>, and \<^verbatim>\<open>offset\<close> defaults to 0.
\<close>

record PageIterator =
  limit :: int
  offset :: int
  exhausted :: bool

definition PageIterator_init :: "int \<Rightarrow> int \<Rightarrow> PageIterator" where
  "PageIterator_init lmt off = \<lparr>limit = lmt, offset = off, exhausted = False\<rparr>"

text \<open>
  The callback \<^verbatim>\<open>fetch_page(limit, offset)\<close> may keep state of its own (\<open>'s\<close>), so it
  takes that state and returns it updated. The world of an iteration is that state and
  the list of the \<^verbatim>\<open>(limit, offset)\<close> pairs the callback has been invoked with, oldest
  first.
\<close>

type_synonym ('s, 'a) fetch_page = "int \<Rightarrow> int \<Rightarrow> 's \<Rightarrow> 'a PaginatedResponse \<times> 's"

record 's fetch_world =
  fetch_state :: 's
  invoked :: "(int \<times> int) list"

text \<open>
  \<^verbatim>\<open>
  def __next__(self):
      if self._exhausted:
          raise StopIteration
      page = self._fetch_page(self._limit, self._offset)
      if not page.has_more:
          self._exhausted = True
      else:
          self._offset += self._limit
      if not page.items and self._exhausted:
          raise StopIteration
      return page
  \<close>
  \<^term>\<open>None\<close> is \<^verbatim>\<open>StopIteration\<close>.
\<close>

definition SyncPageIterator_next ::
  "('s, 'a) fetch_page \<Rightarrow> PageIterator \<times> 's fetch_world
     \<Rightarrow> 'a PaginatedResponse option \<times> PageIterator \<times> 's fetch_world" where
  "SyncPageIterator_next fetch_page = (\<lambda>(self, w).
     if exhausted self then (None, self, w)
     else
       (let (page, st) = fetch_page (limit self) (offset self) (fetch_state w);
            w1 = \<lparr>fetch_state = st, invoked = invoked w @ [(limit self, offset self)]\<rparr>;
            self1 = (if \<not> has_more page then self\<lparr>exhausted := True\<rparr>
                     else self\<lparr>offset := offset self + limit self\<rparr>)
        in if items page = [] \<and> exhausted self1 then (None, self1, w1)
           else (Some page, self1, w1)))"

text \<open>
  \<^verbatim>\<open>AsyncPageIterator.__anext__\<close> has the same body, with \<^verbatim>\<open>await\<close> before the call of the
  callback and \<^verbatim>\<open>StopAsyncIteration\<close> for \<^verbatim>\<open>StopIteration\<close>.
\<close>

definition AsyncPageIterator_anext ::
  "('s, 'a) fetch_page \<Rightarrow> PageIterator \<times> 's fetch_world
     \<Rightarrow> 'a PaginatedResponse option \<times> PageIterator \<times> 's fetch_world" where
  "AsyncPageIterator_anext fetch_page = (\<lambda>(self, w).
     if exhausted self then (None, self, w)
     else
       (let (page, st) = fetch_page (limit self) (offset self) (fetch_state w);
            w1 = \<lparr>fetch_state = st, invoked = invoked w @ [(limit self, offset self)]\<rparr>;
            self1 = (if \<not> has_more page then self\<lparr>exhausted := True\<rparr>
                     else self\<lparr>offset := offset self + limit self\<rparr>)
        in if items page = [] \<and> exhausted self1 then (None, self1, w1)
           else (Some page, self1, w1)))"

text \<open>
  \<^verbatim>\<open>for page in SyncPageIterator(...)\<close>, run to its end: the pages yielded, in order, appended
  to \<open>acc\<close>. The loop need not end (a callback may report more pages for ever), so the
  result is an option and \<^term>\<open>None\<close> is a loop that does not return.
\<close>

partial_function (option) drain_pages ::
  "('s, 'a) fetch_page \<Rightarrow> PageIterator \<Rightarrow> 's fetch_world \<Rightarrow> 'a PaginatedResponse list
     \<Rightarrow> ('a PaginatedResponse list \<times> PageIterator \<times> 's fetch_world) option" where
  "drain_pages fetch_page self w acc =
     (case SyncPageIterator_next fetch_page (self, w) of
        (None, self1, w1) \<Rightarrow> Some (acc, self1, w1)
      | (Some page, self1, w1) \<Rightarrow> drain_pages fetch_page self1 w1 (acc @ [page]))"

text \<open>
  \<^verbatim>\<open>
  def iter_items_sync(fetch_page, limit=DEFAULT_PAGE_SIZE):
      for page in SyncPageIterator(fetch_page, limit=limit):
          yield from page.items
  \<close>
  consumed to its end: the items yielded, in order, and the world afterwards.
\<close>

definition iter_items_sync ::
  "('s, 'a) fetch_page \<Rightarrow> int \<Rightarrow> 's fetch_world \<Rightarrow> ('a list \<times> 's fetch_world) option" where
  "iter_items_sync fetch_page lmt w =
     (case drain_pages fetch_page (PageIterator_init lmt 0) w [] of
        None \<Rightarrow> None
      | Some (pages, self1, w1) \<Rightarrow> Some (concat (map items pages), w1))"

text \<open>
  A callback that serves a fixed sequence of pages, one per call whatever the arguments,
  and an empty final page once the sequence is used up.
\<close>

definition fetch_scripted :: "('a PaginatedResponse list, 'a) fetch_page" where
  "fetch_scripted lmt off pages =
     (case pages of
        [] \<Rightarrow> (\<lparr>items = [], has_more = False\<rparr>, [])
      | page # rest \<Rightarrow> (page, rest))"


subsection \<open>SHA-256, HMAC and Base64, as \<^verbatim>\<open>hashlib\<close>, \<^verbatim>\<open>hmac\<close> and \<^verbatim>\<open>base64\<close> compute them\<close>

text \<open>
  The signature is \<^verbatim>\<open>base64.b64encode(hmac.new(key, msg, hashlib.sha256).digest())\<close>. The
  three library functions are written out after FIPS 180-4, RFC 2104 and RFC 4648, on
  bytes as 8-bit words and with 32-bit words for the hash state (addition wraps).
\<close>

type_synonym byte = "8 word"

definition encode_utf8 :: "string \<Rightarrow> byte list" where
  "encode_utf8 s = map of_char s"

definition sha256_K :: "32 word list" where
  "sha256_K =
     [1116352408, 1899447441, 3049323471, 3921009573, 961987163, 1508970993, 2453635748,
      2870763221, 3624381080, 310598401, 607225278, 1426881987, 1925078388, 2162078206,
      2614888103, 3248222580, 3835390401, 4022224774, 264347078, 604807628, 770255983,
      1249150122, 1555081692, 1996064986, 2554220882, 2821834349, 2952996808, 3210313671,
      3336571891, 3584528711, 113926993, 338241895, 666307205, 773529912, 1294757372,
      1396182291, 1695183700, 1986661051, 2177026350, 2456956037, 2730485921, 2820302411,
      3259730800, 3345764771, 3516065817, 3600352804, 4094571909, 275423344, 430227734,
      506948616, 659060556, 883997877, 958139571, 1322822218, 1537002063, 1747873779,
      1955562222, 2024104815, 2227730452, 2361852424, 2428436474, 2756734187, 3204031479,
      3329325298]"

type_synonym sha256_state =
  "32 word \<times> 32 word \<times> 32 word \<times> 32 word \<times> 32 word \<times> 32 word \<times> 32 word \<times> 32 word"

definition sha256_H0 :: sha256_state where
  "sha256_H0 =
     (1779033703, 3144134277, 1013904242, 2773480762,
      1359893119, 2600822924, 528734635, 1541459225)"

definition Ch :: "32 word \<Rightarrow> 32 word \<Rightarrow> 32 word \<Rightarrow> 32 word" where
  "Ch x y z = (x AND y) XOR (NOT x AND z)"

definition Maj :: "32 word \<Rightarrow> 32 word \<Rightarrow> 32 word \<Rightarrow> 32 word" where
  "Maj x y z = (x AND y) XOR (x AND z) XOR (y AND z)"

definition Sigma0 :: "32 word \<Rightarrow> 32 word" where
  "Sigma0 x = word_rotr 2 x XOR word_rotr 13 x XOR word_rotr 22 x"

definition Sigma1 :: "32 word \<Rightarrow> 32 word" where
  "Sigma1 x = word_rotr 6 x XOR word_rotr 11 x XOR word_rotr 25 x"

definition sigma0 :: "32 word \<Rightarrow> 32 word" where
  "sigma0 x = word_rotr 7 x XOR word_rotr 18 x XOR drop_bit 3 x"

definition sigma1 :: "32 word \<Rightarrow> 32 word" where
  "sigma1 x = word_rotr 17 x XOR word_rotr 19 x XOR drop_bit 10 x"

text \<open>The message, a \<open>1\<close> bit, zeros, and the length in bits as 8 bytes, big-endian.\<close>

definition sha256_pad :: "byte list \<Rightarrow> byte list" where
  "sha256_pad m =
     m @ [128] @ replicate ((119 - length m mod 64) mod 64) 0
       @ map (\<lambda>i. ucast (drop_bit (8 * (7 - i)) (of_nat (8 * length m) :: 64 word))) [0..<8]"

fun chunks :: "nat \<Rightarrow> 'a list \<Rightarrow> 'a list list" where
  "chunks n xs = (if n = 0 \<or> xs = [] then [] else take n xs # chunks n (drop n xs))"

declare chunks.simps [simp del]

definition be32 :: "byte list \<Rightarrow> 32 word" where
  "be32 bs = foldl (\<lambda>w b. push_bit 8 w OR ucast b) 0 bs"

definition bytes_of_word :: "32 word \<Rightarrow> byte list" where
  "bytes_of_word w = map (\<lambda>i. ucast (drop_bit (8 * (3 - i)) w)) [0..<4]"

fun sha256_extend :: "nat \<Rightarrow> 32 word list \<Rightarrow> 32 word list" where
  "sha256_extend 0 w = w"
| "sha256_extend (Suc k) w =
     (let t = length w
      in sha256_extend k
           (w @ [sigma1 (w ! (t - 2)) + w ! (t - 7) + sigma0 (w ! (t - 15)) + w ! (t - 16)]))"

definition sha256_round :: "sha256_state \<Rightarrow> 32 word \<times> 32 word \<Rightarrow> sha256_state" where
  "sha256_round s kw =
     (case s of (a, b, c, d, e, f, g, h) \<Rightarrow>
        (let t1 = h + Sigma1 e + Ch e f g + fst kw + snd kw;
             t2 = Sigma0 a + Maj a b c
         in (t1 + t2, a, b, c, d + t1, e, f, g)))"

definition sha256_compress :: "sha256_state \<Rightarrow> byte list \<Rightarrow> sha256_state" where
  "sha256_compress s block =
     (let w = sha256_extend 48 (map be32 (chunks 4 block))
      in case (s, foldl sha256_round s (zip sha256_K w)) of
           ((a, b, c, d, e, f, g, h), (a', b', c', d', e', f', g', h')) \<Rightarrow>
             (a + a', b + b', c + c', d + d', e + e', f + f', g + g', h + h'))"

definition sha256 :: "byte list \<Rightarrow> byte list" where
  "sha256 m =
     (case foldl sha256_compress sha256_H0 (chunks 64 (sha256_pad m)) of
        (a, b, c, d, e, f, g, h) \<Rightarrow> concat (map bytes_of_word [a, b, c, d, e, f, g, h]))"

definition hmac_sha256 :: "byte list \<Rightarrow> byte list \<Rightarrow> byte list" where
  "hmac_sha256 key msg =
     (let k0 = (if length key > 64 then sha256 key else key);
          k = k0 @ replicate (64 - length k0) 0
      in sha256 (map (\<lambda>b. b XOR 92) k @ sha256 (map (\<lambda>b. b XOR 54) k @ msg)))"

definition b64_char :: "nat \<Rightarrow> char" where
  "b64_char n =
     ''ABCDEFGHIJKLMNOPQRSTUVWXYZabcdefghijklmnopqrstuvwxyz0123456789+/'' ! n"

definition b64_quad :: "byte \<Rightarrow> byte \<Rightarrow> byte \<Rightarrow> nat \<Rightarrow> char" where
  "b64_quad a b c i =
     b64_char (unat (drop_bit (6 * (3 - i))
        (push_bit 16 (ucast a) OR push_bit 8 (ucast b) OR ucast c :: 32 word) AND 63))"

fun b64encode :: "byte list \<Rightarrow> string" where
  "b64encode [] = []"
| "b64encode [a] = [b64_quad a 0 0 0, b64_quad a 0 0 1, CHR ''='', CHR ''='']"
| "b64encode [a, b] = [b64_quad a b 0 0, b64_quad a b 0 1, b64_quad a b 0 2, CHR ''='']"
| "b64encode (a # b # c # rest) =
     [b64_quad a b c 0, b64_quad a b c 1, b64_quad a b c 2, b64_quad a b c 3]
       @ b64encode rest"

subsection \<open>\<^verbatim>\<open>auth/tba.py\<close>: token-based signing\<close>

record TBAConfig =
  consumer_key :: string
  consumer_secret :: string
  token_key :: string
  token_secret :: string

text \<open>The attributes \<^verbatim>\<open>_config\<close> and \<^verbatim>\<open>_realm\<close> of \<^verbatim>\<open>TBAAuth\<close>.\<close>

record TBAAuth =
  tba_config :: TBAConfig
  tba_realm :: string

text \<open>
  An \<^verbatim>\<open>httpx.URL\<close> as the signer observes it: the parts that
  \<^verbatim>\<open>str(url.copy_with(query=None, fragment=None))\<close> prints, the decoded query items in the
  order of the query string (\<^verbatim>\<open>url.params.multi_items()\<close>), and the fragment. An
  \<^verbatim>\<open>httpx.Request\<close> is its method, its URL, its headers and its body.
\<close>

record URL =
  url_scheme :: string
  url_authority :: string
  url_path :: string
  url_query :: "(string \<times> string) list"
  url_fragment :: "string option"

record Request =
  request_method :: string
  request_url :: URL
  request_headers :: "(string \<times> string) list"
  request_content :: string

text \<open>
  \<^verbatim>\<open>
  def _percent_encode(s):
      return quote(s, safe="")
  \<close>
  \<^verbatim>\<open>urllib.parse.quote\<close> with no safe characters keeps the bytes of letters, digits and
  \<^verbatim>\<open>_.-~\<close>, and writes every other byte of the UTF-8 text as \<^verbatim>\<open>%XX\<close> in upper-case hex.
\<close>

definition unreserved :: "char \<Rightarrow> bool" where
  "unreserved c \<longleftrightarrow>
     (let n = of_char c :: nat
      in (65 \<le> n \<and> n \<le> 90) \<or> (97 \<le> n \<and> n \<le> 122) \<or> (48 \<le> n \<and> n \<le> 57)
         \<or> c = CHR ''_'' \<or> c = CHR ''.'' \<or> c = CHR ''-'' \<or> c = CHR ''~'')"

definition hex_digit :: "nat \<Rightarrow> char" where
  "hex_digit n = ''0123456789ABCDEF'' ! n"

definition quote_char :: "char \<Rightarrow> string" where
  "quote_char c =
     (if unreserved c then [c]
      else [CHR ''%'', hex_digit (of_char c div 16), hex_digit (of_char c mod 16)])"

definition percent_encode :: "string \<Rightarrow> string" where
  "percent_encode s = concat (map quote_char s)"

text \<open>\<^verbatim>\<open>sep.join(parts)\<close>.\<close>

fun join :: "string \<Rightarrow> string list \<Rightarrow> string" where
  "join sep [] = []"
| "join sep [x] = x"
| "join sep (x # y # ys) = x @ sep @ join sep (y # ys)"

text \<open>\<^verbatim>\<open>request.method.upper()\<close>, on the ASCII letters of a method name.\<close>

definition str_upper :: "string \<Rightarrow> string" where
  "str_upper s =
     map (\<lambda>c. if (97::nat) \<le> of_char c \<and> of_char c \<le> (122::nat)
               then char_of (of_char c - (32::nat)) else c) s"

text \<open>
  \<^verbatim>\<open>urlencode(sorted_params, quote_via=quote)\<close>: each key and each value quoted with no safe
  characters, \<^verbatim>\<open>key=value\<close> pairs joined by \<^verbatim>\<open>&\<close>.
\<close>

definition urlencode :: "(string \<times> string) list \<Rightarrow> string" where
  "urlencode params =
     join ''&'' (map (\<lambda>(k, v). percent_encode k @ ''='' @ percent_encode v) params)"

text \<open>\<^verbatim>\<open>str(request.url.copy_with(query=None, fragment=None))\<close>.\<close>

definition url_base :: "URL \<Rightarrow> string" where
  "url_base u = url_scheme u @ ''://'' @ url_authority u @ url_path u"

text \<open>
  \<^verbatim>\<open>
  all_params = dict(oauth_params)
  for key, value in request.url.params.multi_items():
      all_params[key] = value
  \<close>
  A \<^verbatim>\<open>dict\<close> is the list of its items in insertion order, keys distinct; an assignment
  replaces the value of a key in place or appends a new item.
\<close>

definition all_params :: "(string \<times> string) list \<Rightarrow> Request \<Rightarrow> (string \<times> string) list" where
  "all_params oauth_params request =
     foldl (\<lambda>d (key, val). AList.update key val d) oauth_params
       (url_query (request_url request))"

text \<open>
  The local \<^verbatim>\<open>base_string\<close> of \<^verbatim>\<open>_compute_signature\<close>:
  \<^verbatim>\<open>
  method = request.method.upper()
  url = request.url.copy_with(query=None, fragment=None)
  base_url = str(url)
  ...
  sorted_params = sorted(all_params.items())
  normalized_params = urlencode(sorted_params, quote_via=quote)
  base_string = "&".join([
      _percent_encode(method), _percent_encode(base_url), _percent_encode(normalized_params)])
  \<close>
  The items of a \<^verbatim>\<open>dict\<close> have distinct keys, so sorting them sorts them by key; byte strings
  in lexicographic order are in the order of their code points.
\<close>

definition signature_base_string :: "Request \<Rightarrow> (string \<times> string) list \<Rightarrow> string" where
  "signature_base_string request oauth_params =
     join ''&''
       [percent_encode (str_upper (request_method request)),
        percent_encode (url_base (request_url request)),
        percent_encode (urlencode (sort_key fst (all_params oauth_params request)))]"

text \<open>
  \<^verbatim>\<open>
  signing_key = (_percent_encode(self._config.consumer_secret) + "&"
                 + _percent_encode(self._config.token_secret))
  hashed = hmac.new(signing_key.encode("utf-8"), base_string.encode("utf-8"), hashlib.sha256)
  return base64.b64encode(hashed.digest()).decode("utf-8")
  \<close>
\<close>

definition signing_key :: "TBAAuth \<Rightarrow> string" where
  "signing_key self =
     percent_encode (consumer_secret (tba_config self)) @ ''&''
       @ percent_encode (token_secret (tba_config self))"

definition compute_signature :: "TBAAuth \<Rightarrow> Request \<Rightarrow> (string \<times> string) list \<Rightarrow> string" where
  "compute_signature self request oauth_params =
     b64encode (hmac_sha256 (encode_utf8 (signing_key self))
       (encode_utf8 (signature_base_string request oauth_params)))"

text \<open>
  \<^verbatim>\<open>
  def _build_header(self, oauth_params):
      parts = [f'realm="{_percent_encode(self._realm)}"']
      for key, value in sorted(oauth_params.items()):
          parts.append(f'{_percent_encode(key)}="{_percent_encode(value)}"')
      return "OAuth " + ", ".join(parts)
  \<close>
\<close>

definition build_header :: "TBAAuth \<Rightarrow> (string \<times> string) list \<Rightarrow> string" where
  "build_header self oauth_params =
     ''OAuth '' @ join '', ''
       ((''realm='' @ [CHR 0x22] @ percent_encode (tba_realm self) @ [CHR 0x22])
        # map (\<lambda>(key, val). percent_encode key @ ''='' @ [CHR 0x22] @ percent_encode val
                 @ [CHR 0x22])
            (sort_key fst oauth_params))"

text \<open>
  \<^verbatim>\<open>
  def auth_flow(self, request):
      nonce = secrets.token_hex(16)
      timestamp = str(int(time.time()))
      oauth_params = {
          "oauth_consumer_key": self._config.consumer_key,
          "oauth_nonce": nonce,
          "oauth_signature_method": "HMAC-SHA256",
          "oauth_timestamp": timestamp,
          "oauth_token": self._config.token_key,
          "oauth_version": "1.0",
      }
      signature = self._compute_signature(request, oauth_params)
      oauth_params["oauth_signature"] = signature
      request.headers["Authorization"] = self._build_header(oauth_params)
      yield request
  \<close>
  The random nonce and the clock reading are the arguments \<open>nonce\<close> and \<open>timestamp\<close>; the
  result is the request that is sent.
\<close>

definition tba_oauth_params :: "TBAAuth \<Rightarrow> string \<Rightarrow> string \<Rightarrow> (string \<times> string) list" where
  "tba_oauth_params self nonce timestamp =
     [(''oauth_consumer_key'', consumer_key (tba_config self)),
      (''oauth_nonce'', nonce),
      (''oauth_signature_method'', ''HMAC-SHA256''),
      (''oauth_timestamp'', timestamp),
      (''oauth_token'', token_key (tba_config self)),
      (''oauth_version'', ''1.0'')]"

definition auth_flow :: "TBAAuth \<Rightarrow> string \<Rightarrow> string \<Rightarrow> Request \<Rightarrow> Request" where
  "auth_flow self nonce timestamp request =
     (let oauth_params = tba_oauth_params self nonce timestamp;
          signature = compute_signature self request oauth_params;
          oauth_params1 = AList.update ''oauth_signature'' signature oauth_params
      in request\<lparr>request_headers :=
           AList.update ''Authorization'' (build_header self oauth_params1)
             (request_headers request)\<rparr>)"

text \<open>Two requests to one path whose query strings are \<^verbatim>\<open>a=1&b=2\<close> and \<^verbatim>\<open>b=2&a=1\<close>.\<close>

definition example_auth :: TBAAuth where
  "example_auth =
     \<lparr>tba_config = \<lparr>consumer_key = ''ck'', consumer_secret = ''cs'', token_key = ''tk'',
                    token_secret = ''ts''\<rparr>,
      tba_realm = ''123456''\<rparr>"

definition request_ab :: Request where
  "request_ab =
     \<lparr>request_method = ''GET'',
      request_url = \<lparr>url_scheme = ''https'', url_authority = ''123456.suitetalk.api.netsuite.com'',
                     url_path = ''/services/rest/record/v1/customer'',
                     url_query = [(''a'', ''1''), (''b'', ''2'')], url_fragment = None\<rparr>,
      request_headers = [], request_content = []\<rparr>"

definition request_ba :: Request where
  "request_ba =
     \<lparr>request_method = ''GET'',
      request_url = \<lparr>url_scheme = ''https'', url_authority = ''123456.suitetalk.api.netsuite.com'',
                     url_path = ''/services/rest/record/v1/customer'',
                     url_query = [(''b'', ''2''), (''a'', ''1'')], url_fragment = None\<rparr>,
      request_headers = [], request_content = []\<rparr>"

text \<open>
  The shape of a URL as \<^verbatim>\<open>httpx\<close> parses it: no colon in the scheme, no slash in the
  authority, and a path that is empty or starts with a slash.
\<close>

definition url_wellformed :: "URL \<Rightarrow> bool" where
  "url_wellformed u \<longleftrightarrow>
     CHR '':'' \<notin> set (url_scheme u) \<and> CHR ''/'' \<notin> set (url_authority u)
     \<and> (url_path u = [] \<or> hd (url_path u) = CHR ''/'')"

text \<open>The request \<^verbatim>\<open>request_ab\<close> with the path \<^verbatim>\<open>/aa...a\<close> of \<open>n\<close> letters.\<close>

definition request_at :: "nat \<Rightarrow> Request" where
  "request_at n =
     request_ab\<lparr>request_url :=
       (request_url request_ab)\<lparr>url_path := CHR ''/'' # replicate n CHR ''a''\<rparr>\<rparr>"

subsection \<open>Instances of the two library parameters, for the examples\<close>

text \<open>
  Python's \<^verbatim>\<open>float\<close> on the unsigned decimal literals \<^verbatim>\<open>digits\<close> and \<^verbatim>\<open>digits.digits\<close>.
  Python accepts more (signs, exponents, surrounding blanks, \<^verbatim>\<open>inf\<close>); this instance
  rejects those, and no general theorem depends on it.
\<close>

definition is_digit :: "char \<Rightarrow> bool" where
  "is_digit c \<longleftrightarrow> (48::nat) \<le> of_char c \<and> of_char c \<le> (57::nat)"

definition nat_of_digits :: "string \<Rightarrow> nat" where
  "nat_of_digits s = foldl (\<lambda>n c. 10 * n + (of_char c - 48)) 0 s"

definition float_decimal :: "string \<Rightarrow> real option" where
  "float_decimal s =
     (let ip = takeWhile is_digit s; rest = dropWhile is_digit s
      in if ip = [] then None
         else (case rest of
                 [] \<Rightarrow> Some (real (nat_of_digits ip))
               | c # fp \<Rightarrow>
                   if c = CHR ''.'' \<and> fp \<noteq> [] \<and> list_all is_digit fp
                   then Some (real (nat_of_digits ip) + real (nat_of_digits fp) / 10 ^ length fp)
                   else None))"

text \<open>
  The validation of \<^verbatim>\<open>NetSuiteErrorResponse\<close> on documents whose fields already have the
  declared types: a field is read under its alias, else under its name
  (\<^verbatim>\<open>populate_by_name\<close>), an absent field takes its default, other keys are ignored.
  pydantic also coerces some values of other types; this instance rejects them, and no
  general theorem depends on it.
\<close>

definition get_field :: "(string \<times> json) list \<Rightarrow> string \<Rightarrow> string \<Rightarrow> json option" where
  "get_field obj alias name =
     (case map_of obj alias of Some v \<Rightarrow> Some v | None \<Rightarrow> map_of obj name)"

fun want_str :: "string \<Rightarrow> json option \<Rightarrow> string option" where
  "want_str dflt None = Some dflt"
| "want_str dflt (Some (JString s)) = Some s"
| "want_str dflt (Some _) = None"

fun want_int :: "int \<Rightarrow> json option \<Rightarrow> int option" where
  "want_int dflt None = Some dflt"
| "want_int dflt (Some (JInt i)) = Some i"
| "want_int dflt (Some _) = None"

fun want_opt_str :: "json option \<Rightarrow> string option option" where
  "want_opt_str None = Some None"
| "want_opt_str (Some JNull) = Some None"
| "want_opt_str (Some (JString s)) = Some (Some s)"
| "want_opt_str (Some _) = None"

fun validate_detail :: "json \<Rightarrow> NetSuiteErrorDetail option" where
  "validate_detail (JObject obj) =
     (case want_str [] (map_of obj ''detail'') of
        None \<Rightarrow> None
      | Some d \<Rightarrow>
          (case want_str [] (get_field obj ''o:errorCode'' ''error_code'') of
             None \<Rightarrow> None
           | Some c \<Rightarrow>
               (case want_opt_str (get_field obj ''o:errorPath'' ''error_path'') of
                  None \<Rightarrow> None
                | Some p \<Rightarrow> Some \<lparr>d_detail = d, d_error_code = c, d_error_path = p\<rparr>)))"
| "validate_detail _ = None"

fun validate_details :: "json option \<Rightarrow> NetSuiteErrorDetail list option" where
  "validate_details None = Some []"
| "validate_details (Some (JArray xs)) = those (map validate_detail xs)"
| "validate_details (Some _) = None"

fun model_validate_typed :: "json \<Rightarrow> NetSuiteErrorResponse option" where
  "model_validate_typed (JObject obj) =
     (case want_str [] (map_of obj ''type'') of
        None \<Rightarrow> None
      | Some ty \<Rightarrow>
          (case want_str [] (map_of obj ''title'') of
             None \<Rightarrow> None
           | Some ti \<Rightarrow>
               (case want_int 0 (map_of obj ''status'') of
                  None \<Rightarrow> None
                | Some st \<Rightarrow>
                    (case want_str [] (get_field obj ''o:errorCode'' ''error_code'') of
                       None \<Rightarrow> None
                     | Some code \<Rightarrow>
                         (case validate_details
                                 (get_field obj ''o:errorDetails'' ''error_details'') of
                            None \<Rightarrow> None
                          | Some ds \<Rightarrow>
                              Some \<lparr>er_type = ty, er_title = ti, er_status = st,
                                    er_error_code = code, er_error_details = ds\<rparr>)))))"
| "model_validate_typed _ = None"


subsection \<open>Example responses\<close>

text \<open>
  A 500 with the JSON body \<^verbatim>\<open>{"type": "error", "title": "Server error", "status": 500}\<close>,
  a 500 with a body that is not JSON, a 204 without a body, and a 200 with a body that is
  not JSON.
\<close>

definition response_500_json :: response where
  "response_500_json =
     \<lparr>status_code = 500, headers = Map.empty, content = ''{...}'',
      json_body = Some (JObject [(''type'', JString ''error''),
        (''title'', JString ''Server error''), (''status'', JInt 500)])\<rparr>"

definition response_500_text :: response where
  "response_500_text =
     \<lparr>status_code = 500, headers = Map.empty, content = ''Internal Server Error'',
      json_body = None\<rparr>"

definition response_204 :: response where
  "response_204 = \<lparr>status_code = 204, headers = Map.empty, content = [], json_body = None\<rparr>"

definition response_200_html :: response where
  "response_200_html =
     \<lparr>status_code = 200, headers = Map.empty, content = ''<html></html>'', json_body = None\<rparr>"

section \<open>Theorems\<close>

subsection \<open>Backoff\<close>

lemma round_half_even_of_int: "x \<in> \<int> \<Longrightarrow> of_int (round_half_even x) = x"
  by (auto simp: round_half_even_def Ints_def)

lemma float_mul_pow2_exact:
  assumes "\<bar>x * p\<bar> < 2 ^ 1024" and "x * p * 2 ^ 1074 \<in> \<int>"
  shows "float_mul_pow2 x p = Finite (x * p)"
proof -
  from assms(1) have "\<not> 2 ^ 1024 \<le> x * p" "\<not> x * p \<le> - (2 ^ 1024)"
    by linarith+
  moreover have "of_int (round_half_even (x * p * 2 ^ 1074)) / 2 ^ 1074 = x * p"
    using round_half_even_of_int [OF assms(2)] by simp
  ultimately show ?thesis
    by (simp add: float_mul_pow2_def Let_def)
qed

lemma float_mul_pow2_zero: "float_mul_pow2 0 p = Finite 0"
  using float_mul_pow2_exact [of 0 p] by simp

text \<open>
  Claim C7, as stated, fails for large attempt indices: for attempt 1024 the conversion of
  \<open>2 ^ 1024\<close> to a \<^verbatim>\<open>float\<close> raises \<^verbatim>\<open>OverflowError\<close>, whatever the factor is, and for attempt
  1023 and factor 2 the product is the positive infinity, not \<open>2 ^ 1024\<close>.
\<close>

theorem calculate_backoff_overflow_counterexample:
  "calculate_backoff 1024 None 1 = Inl OverflowError
   \<and> calculate_backoff 1024 None 0 = Inl OverflowError
   \<and> calculate_backoff 1023 None 2 = Inr PosInf"
  by (simp add: calculate_backoff_def float_mul_pow2_def)

text \<open>
  Claim C7, amended. With a hint \<open>h\<close> the wait is \<open>h\<close>, whatever the attempt index \<open>a\<close> and
  the factor \<open>f\<close> are. Without a hint, for \<open>0 \<le> a \<le> 1023\<close> and a factor \<open>f > 0\<close> that is
  a double (so a multiple of \<open>2 ^ -1074\<close>), the wait is exactly \<open>f * 2 ^ a\<close> as long as that
  is below \<open>2 ^ 1024\<close>, the end of the range of a double, with no other cap; from
  \<open>2 ^ 1024\<close> on the wait is the positive infinity. For \<open>a \<ge> 1024\<close> the call without a hint
  raises \<^verbatim>\<open>OverflowError\<close>.
\<close>

theorem calculate_backoff_in_double_range:
  "calculate_backoff a (Some h) f = Inr (Finite h)
   \<and> (0 \<le> a \<and> a \<le> 1023 \<and> 0 < f \<and> f * 2 ^ 1074 \<in> \<int> \<and> f * 2 ^ nat a < 2 ^ 1024 \<longrightarrow>
        calculate_backoff a None f = Inr (Finite (f * 2 ^ nat a)))
   \<and> (0 \<le> a \<and> a \<le> 1023 \<and> 2 ^ 1024 \<le> f * 2 ^ nat a \<longrightarrow>
        calculate_backoff a None f = Inr PosInf)
   \<and> (1024 \<le> a \<longrightarrow> calculate_backoff a None f = Inl OverflowError)"
proof (intro conjI impI)
  show "calculate_backoff a (Some h) f = Inr (Finite h)"
    by (simp add: calculate_backoff_def)
next
  assume h: "0 \<le> a \<and> a \<le> 1023 \<and> 0 < f \<and> f * 2 ^ 1074 \<in> \<int> \<and> f * 2 ^ nat a < 2 ^ 1024"
  then have "0 < f * 2 ^ nat a" by simp
  with h have small: "\<bar>f * 2 ^ nat a\<bar> < 2 ^ 1024" by simp
  have eq: "f * 2 ^ nat a * 2 ^ 1074 = (f * 2 ^ 1074) * 2 ^ nat a"
    by (simp only: ac_simps)
  have "f * 2 ^ nat a * 2 ^ 1074 \<in> \<int>"
    unfolding eq
  proof (rule Ints_mult)
    from h show "f * 2 ^ 1074 \<in> \<int>" by blast
    show "(2::real) ^ nat a \<in> \<int>" by (rule Ints_power) simp
  qed
  from float_mul_pow2_exact [OF small this] h
  show "calculate_backoff a None f = Inr (Finite (f * 2 ^ nat a))"
    by (simp add: calculate_backoff_def)
next
  assume "0 \<le> a \<and> a \<le> 1023 \<and> 2 ^ 1024 \<le> f * 2 ^ nat a"
  then show "calculate_backoff a None f = Inr PosInf"
    by (simp add: calculate_backoff_def float_mul_pow2_def)
next
  assume "1024 \<le> a"
  then show "calculate_backoff a None f = Inl OverflowError"
    by (simp add: calculate_backoff_def)
qed

text \<open>An instance: factor one half, attempt 3, and the hint 10.\<close>

theorem calculate_backoff_in_double_range_witness:
  "calculate_backoff 3 (Some 10) (1 / 2) = Inr (Finite 10)
   \<and> calculate_backoff 3 None (1 / 2) = Inr (Finite 4)
   \<and> calculate_backoff 1023 None 2 = Inr PosInf
   \<and> calculate_backoff 2000 None (1 / 2) = Inl OverflowError"
  using calculate_backoff_in_double_range [of 3 10 "1 / 2"]
    calculate_backoff_in_double_range [of 1023 10 2]
    calculate_backoff_in_double_range [of 2000 10 "1 / 2"]
  by simp

subsection \<open>Token cache\<close>

text \<open>
  Claim C3. The validity check holds exactly when a token is present and the clock reads
  strictly less than the stored expiry minus 60 seconds. So a present token with expiry
  \<open>E\<close> is valid at \<open>E - 61\<close> and invalid at \<open>E - 59\<close> (and at \<open>E - 60\<close> itself).
\<close>

theorem is_token_valid_skew:
  "(is_token_valid self now \<longleftrightarrow> access_token self \<noteq> None \<and> now < expires_at self - 60)
   \<and> (access_token self \<noteq> None \<longrightarrow>
        is_token_valid self (expires_at self - 61)
        \<and> \<not> is_token_valid self (expires_at self - 59)
        \<and> \<not> is_token_valid self (expires_at self - 60))
   \<and> (access_token self = None \<longrightarrow> \<not> is_token_valid self now)"
  by (simp add: is_token_valid_def)

theorem is_token_valid_skew_witness:
  "is_token_valid \<lparr>access_token = Some ''tok'', expires_at = 5000\<rparr> 4939
   \<and> \<not> is_token_valid \<lparr>access_token = Some ''tok'', expires_at = 5000\<rparr> 4941
   \<and> \<not> is_token_valid \<lparr>access_token = Some ''tok'', expires_at = 5000\<rparr> 4940
   \<and> \<not> is_token_valid OAuth2Auth_init 0"
  using is_token_valid_skew [of "\<lparr>access_token = Some ''tok'', expires_at = 5000\<rparr>" 4939]
    is_token_valid_skew [of OAuth2Auth_init 0]
  by (simp add: OAuth2Auth_init_def)

subsection \<open>Error classifier\<close>

lemma STATUS_EXCEPTION_MAP_cases:
  "(case STATUS_EXCEPTION_MAP s of Some c \<Rightarrow> c | None \<Rightarrow> NetSuiteError) =
     (if s = 400 then ValidationError
      else if s = 401 then AuthenticationError
      else if s = 403 then AuthorizationError
      else if s = 404 then NotFoundError
      else if s = 429 then ConcurrencyLimitError
      else if s = 500 \<or> s = 502 \<or> s = 503 then ServerError
      else NetSuiteError)"
  by (simp add: STATUS_EXCEPTION_MAP_def)

lemma build_exception_parsed:
  assumes "json_body r = Some body" and "model_validate body = Some p"
  shows "build_exception model_validate py_float r =
     (let cls = (case STATUS_EXCEPTION_MAP (status_code r) of Some c \<Rightarrow> c | None \<Rightarrow> NetSuiteError)
      in \<lparr>exc_class = cls,
          message = (if er_title p \<noteq> [] then er_title p else ''HTTP '' @ str_int (status_code r)),
          status = Some (if er_status p \<noteq> 0 then er_status p else status_code r),
          error_code = Some (er_error_code p),
          error_details = map model_dump (er_error_details p),
          retry_after = (if cls = ConcurrencyLimitError then parse_retry_after py_float r
                         else None)\<rparr>)"
  using assms
  by (simp add: build_exception_def Let_def ConcurrencyLimitError_init_def NetSuiteError_init_def)

lemma build_exception_fallback:
  assumes "Option.bind (json_body r) model_validate = None"
  shows "build_exception model_validate py_float r =
     \<lparr>exc_class = NetSuiteError, message = ''HTTP '' @ str_int (status_code r),
      status = Some (status_code r), error_code = None, error_details = [],
      retry_after = None\<rparr>"
  using assms by (simp add: build_exception_def NetSuiteError_init_def)

text \<open>
  Claim C4. When the body of a response decodes and validates as the error payload \<open>p\<close>,
  the class of the constructed error is read off the status: 400 Validation, 401
  Authentication, 403 Authorization, 404 NotFound, 429 ConcurrencyLimit, 500, 502 and 503
  Server, and the generic class for every other status. Its message is the title of
  \<open>p\<close> when that is not empty, and \<open>HTTP <status>\<close> otherwise. (The status may be any
  integer, so in particular one that is at least 400.)
\<close>

theorem build_exception_status_mapping:
  assumes "json_body r = Some body" and "model_validate body = Some p"
  shows "exc_class (build_exception model_validate py_float r) =
           (if status_code r = 400 then ValidationError
            else if status_code r = 401 then AuthenticationError
            else if status_code r = 403 then AuthorizationError
            else if status_code r = 404 then NotFoundError
            else if status_code r = 429 then ConcurrencyLimitError
            else if status_code r = 500 \<or> status_code r = 502 \<or> status_code r = 503
              then ServerError
            else NetSuiteError)
         \<and> message (build_exception model_validate py_float r) =
           (if er_title p \<noteq> [] then er_title p else ''HTTP '' @ str_int (status_code r))
         \<and> error_code (build_exception model_validate py_float r) = Some (er_error_code p)
         \<and> error_details (build_exception model_validate py_float r) =
           map model_dump (er_error_details p)"
proof -
  note eq = build_exception_parsed [of r body model_validate p py_float, OF assms]
  show ?thesis
    unfolding eq Let_def by (simp only: netsuite_exc.simps STATUS_EXCEPTION_MAP_cases simp_thms)
qed

text \<open>
  An instance: status 400 with the body
  \<^verbatim>\<open>{"title": "Invalid field", "status": 400, "o:errorCode": "INVALID_FLD"}\<close>.
\<close>

theorem build_exception_status_mapping_witness:
  "exc_class (build_exception model_validate_typed float_decimal
      \<lparr>status_code = 400, headers = Map.empty, content = ''{...}'',
       json_body = Some (JObject [(''title'', JString ''Invalid field''), (''status'', JInt 400),
                                  (''o:errorCode'', JString ''INVALID_FLD'')])\<rparr>) = ValidationError
   \<and> message (build_exception model_validate_typed float_decimal
      \<lparr>status_code = 400, headers = Map.empty, content = ''{...}'',
       json_body = Some (JObject [(''title'', JString ''Invalid field''), (''status'', JInt 400),
                                  (''o:errorCode'', JString ''INVALID_FLD'')])\<rparr>) = ''Invalid field''
   \<and> error_code (build_exception model_validate_typed float_decimal
      \<lparr>status_code = 400, headers = Map.empty, content = ''{...}'',
       json_body = Some (JObject [(''title'', JString ''Invalid field''), (''status'', JInt 400),
                                  (''o:errorCode'', JString ''INVALID_FLD'')])\<rparr>) = Some ''INVALID_FLD''"
  using build_exception_status_mapping
    [of "\<lparr>status_code = 400, headers = Map.empty, content = ''{...}'',
          json_body = Some (JObject [(''title'', JString ''Invalid field''), (''status'', JInt 400),
                                     (''o:errorCode'', JString ''INVALID_FLD'')])\<rparr>"
        "JObject [(''title'', JString ''Invalid field''), (''status'', JInt 400),
                  (''o:errorCode'', JString ''INVALID_FLD'')]"
        model_validate_typed
        "\<lparr>er_type = [], er_title = ''Invalid field'', er_status = 400,
          er_error_code = ''INVALID_FLD'', er_error_details = []\<rparr>"
        float_decimal]
  by (simp add: get_field_def)

text \<open>
  Claim C5. When the body does not decode, or decodes and does not validate as the error
  payload, the classifier returns the generic class with the message \<open>HTTP <status>\<close>, the
  raw status, no error code, no detail entries and no retry-after hint. So a 502 with such
  a body is a generic error with status 502, and not a Server error.
\<close>

theorem build_exception_unparseable:
  assumes "json_body r = None \<or> (\<exists>body. json_body r = Some body \<and> model_validate body = None)"
  shows "build_exception model_validate py_float r =
           \<lparr>exc_class = NetSuiteError, message = ''HTTP '' @ str_int (status_code r),
            status = Some (status_code r), error_code = None, error_details = [],
            retry_after = None\<rparr>
         \<and> (status_code r = 502 \<longrightarrow>
              exc_class (build_exception model_validate py_float r) \<noteq> ServerError
              \<and> message (build_exception model_validate py_float r) = ''HTTP 502''
              \<and> status (build_exception model_validate py_float r) = Some 502
              \<and> error_code (build_exception model_validate py_float r) = None)"
proof -
  from assms have "Option.bind (json_body r) model_validate = None"
    by auto
  then have eq: "build_exception model_validate py_float r =
           \<lparr>exc_class = NetSuiteError, message = ''HTTP '' @ str_int (status_code r),
            status = Some (status_code r), error_code = None, error_details = [],
            retry_after = None\<rparr>"
    by (rule build_exception_fallback)
  have "str_int 502 = ''502''"
    by (simp add: str_int_def str_nat.simps)
  with eq show ?thesis by simp
qed

text \<open>An instance: status 502 with the body \<^verbatim>\<open>Bad Gateway\<close>, which is not JSON.\<close>

theorem build_exception_unparseable_witness:
  "build_exception model_validate_typed float_decimal
      \<lparr>status_code = 502, headers = Map.empty, content = ''Bad Gateway'', json_body = None\<rparr> =
     \<lparr>exc_class = NetSuiteError, message = ''HTTP 502'', status = Some 502,
      error_code = None, error_details = [], retry_after = None\<rparr>"
  using build_exception_unparseable
    [of "\<lparr>status_code = 502, headers = Map.empty, content = ''Bad Gateway'', json_body = None\<rparr>"
        model_validate_typed float_decimal]
  by (simp add: str_int_def str_nat.simps)

text \<open>
  Claim C6, as stated, fails: a 429 response with the header \<^verbatim>\<open>Retry-After: 5\<close> whose body
  is not JSON is classified by the fallback, so the error is the generic one and carries no
  retry-after hint.
\<close>

theorem retry_after_429_unparseable_body_counterexample:
  "status_code \<lparr>status_code = 429, headers = [''Retry-After'' \<mapsto> ''5''],
                 content = ''Too Many Requests'', json_body = None\<rparr> = 429
   \<and> headers \<lparr>status_code = 429, headers = [''Retry-After'' \<mapsto> ''5''],
               content = ''Too Many Requests'', json_body = None\<rparr> ''Retry-After'' = Some ''5''
   \<and> exc_class (build_exception model_validate_typed float_decimal
        \<lparr>status_code = 429, headers = [''Retry-After'' \<mapsto> ''5''],
         content = ''Too Many Requests'', json_body = None\<rparr>) = NetSuiteError
   \<and> retry_after (build_exception model_validate_typed float_decimal
        \<lparr>status_code = 429, headers = [''Retry-After'' \<mapsto> ''5''],
         content = ''Too Many Requests'', json_body = None\<rparr>) = None"
  by (simp add: build_exception_def NetSuiteError_init_def)

text \<open>
  Claim C6, amended. Parsing the header gives nothing when the header is absent and what
  \<^verbatim>\<open>float\<close> makes of its value when it is present (nothing when \<^verbatim>\<open>float\<close> rejects it).
  A constructed error of any class but ConcurrencyLimit has no retry-after hint. A 429
  response whose body validates as the error payload yields a ConcurrencyLimit error
  whose hint is the parsed header; with the header \<^verbatim>\<open>Retry-After: 5\<close> the hint is 5.
\<close>

theorem retry_after_only_on_concurrency_limit:
  "(headers r ''Retry-After'' = None \<longrightarrow> parse_retry_after py_float r = None)
   \<and> (headers r ''Retry-After'' = Some raw \<longrightarrow> parse_retry_after py_float r = py_float raw)
   \<and> (exc_class (build_exception model_validate py_float r) \<noteq> ConcurrencyLimitError \<longrightarrow>
        retry_after (build_exception model_validate py_float r) = None)
   \<and> (status_code r = 429 \<and> json_body r = Some body \<and> model_validate body = Some p \<longrightarrow>
        exc_class (build_exception model_validate py_float r) = ConcurrencyLimitError
        \<and> retry_after (build_exception model_validate py_float r) = parse_retry_after py_float r)
   \<and> (status_code r = 429 \<and> json_body r = Some body \<and> model_validate body = Some p
        \<and> headers r ''Retry-After'' = Some ''5'' \<and> py_float ''5'' = Some 5 \<longrightarrow>
        exc_class (build_exception model_validate py_float r) = ConcurrencyLimitError
        \<and> retry_after (build_exception model_validate py_float r) = Some 5)"
proof (intro conjI impI)
  show "parse_retry_after py_float r = None" if "headers r ''Retry-After'' = None"
    using that by (simp add: parse_retry_after_def)
  show "parse_retry_after py_float r = py_float raw" if "headers r ''Retry-After'' = Some raw"
    using that by (simp add: parse_retry_after_def)
  show "retry_after (build_exception model_validate py_float r) = None"
    if "exc_class (build_exception model_validate py_float r) \<noteq> ConcurrencyLimitError"
  proof (cases "Option.bind (json_body r) model_validate")
    case None
    then show ?thesis by (simp add: build_exception_fallback)
  next
    case (Some q)
    then obtain b where "json_body r = Some b" and "model_validate b = Some q"
      by (cases "json_body r") auto
    from build_exception_parsed [of r b model_validate q py_float, OF this] that
    show ?thesis by (simp add: Let_def split: if_splits)
  qed
  show "exc_class (build_exception model_validate py_float r) = ConcurrencyLimitError"
    and "retry_after (build_exception model_validate py_float r) = parse_retry_after py_float r"
    if "status_code r = 429 \<and> json_body r = Some body \<and> model_validate body = Some p"
  proof -
    from that have b: "json_body r = Some body" and m: "model_validate body = Some p"
      and s: "status_code r = 429" by simp_all
    have c: "(case STATUS_EXCEPTION_MAP (status_code r) of Some c \<Rightarrow> c | None \<Rightarrow> NetSuiteError)
        = ConcurrencyLimitError"
      unfolding STATUS_EXCEPTION_MAP_cases using s by simp
    show "exc_class (build_exception model_validate py_float r) = ConcurrencyLimitError"
      unfolding build_exception_parsed [of r body model_validate p py_float, OF b m] Let_def c
      by simp
    show "retry_after (build_exception model_validate py_float r) = parse_retry_after py_float r"
      unfolding build_exception_parsed [of r body model_validate p py_float, OF b m] Let_def c
      by simp
  qed
  then show "exc_class (build_exception model_validate py_float r) = ConcurrencyLimitError"
    and "retry_after (build_exception model_validate py_float r) = Some 5"
    if "status_code r = 429 \<and> json_body r = Some body \<and> model_validate body = Some p
        \<and> headers r ''Retry-After'' = Some ''5'' \<and> py_float ''5'' = Some 5"
    using that by (simp_all add: parse_retry_after_def)
qed

text \<open>
  An instance: status 429, the header \<^verbatim>\<open>Retry-After: 5\<close> and the body
  \<^verbatim>\<open>{"type": "error", "title": "Request limit exceeded", "status": 429}\<close>.
\<close>

theorem retry_after_only_on_concurrency_limit_witness:
  "exc_class (build_exception model_validate_typed float_decimal
      \<lparr>status_code = 429, headers = [''Retry-After'' \<mapsto> ''5''], content = ''{...}'',
       json_body = Some (JObject [(''type'', JString ''error''),
         (''title'', JString ''Request limit exceeded''), (''status'', JInt 429)])\<rparr>)
     = ConcurrencyLimitError
   \<and> retry_after (build_exception model_validate_typed float_decimal
      \<lparr>status_code = 429, headers = [''Retry-After'' \<mapsto> ''5''], content = ''{...}'',
       json_body = Some (JObject [(''type'', JString ''error''),
         (''title'', JString ''Request limit exceeded''), (''status'', JInt 429)])\<rparr>)
     = Some 5"
  using retry_after_only_on_concurrency_limit
    [of "\<lparr>status_code = 429, headers = [''Retry-After'' \<mapsto> ''5''], content = ''{...}'',
          json_body = Some (JObject [(''type'', JString ''error''),
            (''title'', JString ''Request limit exceeded''), (''status'', JInt 429)])\<rparr>"
        float_decimal "''5''" model_validate_typed
        "JObject [(''type'', JString ''error''),
            (''title'', JString ''Request limit exceeded''), (''status'', JInt 429)]"
        "\<lparr>er_type = ''error'', er_title = ''Request limit exceeded'', er_status = 429,
          er_error_code = [], er_error_details = []\<rparr>"]
  by (simp add: get_field_def float_decimal_def is_digit_def nat_of_digits_def)

subsection \<open>Request pipeline\<close>

lemma request_loop_unfold:
  "request_loop sl mv pf cfg send a lst eff =
     (if a < max_retries cfg + 1 then
        (case attempt_outcome sl mv pf cfg send a eff of
           Stop res e \<Rightarrow> (res, e)
         | Again x e \<Rightarrow> request_loop sl mv pf cfg send (a + 1) (Some x) e)
      else (Inl (Raised (case lst of Some e \<Rightarrow> e
              | None \<Rightarrow> NetSuiteError_init NetSuiteError ''Max retries exceeded'' None None None)),
            eff))"
proof (cases "a < max_retries cfg + 1")
  case False
  then show ?thesis by (subst request_loop.simps) simp
next
  case lt: True
  let ?r = "send (calls eff)"
  let ?eff1 = "eff\<lparr>calls := calls eff + 1\<rparr>"
  show ?thesis
  proof (cases "status_code ?r < 400")
    case True
    with lt show ?thesis
      by (subst request_loop.simps)
         (simp add: attempt_outcome_def success_result_def Let_def split: option.split)
  next
    case ge: False
    show ?thesis
    proof (cases "retryable cfg ?r a")
      case False
      with ge lt show ?thesis
        by (subst request_loop.simps) (auto simp: attempt_outcome_def Let_def retryable_def)
    next
      case rt: True
      then have aN: "a < max_retries cfg" by (simp add: retryable_def)
      let ?c = "calculate_backoff a
          (if status_code ?r = 429 then parse_retry_after pf ?r else None)
          (retry_backoff_factor cfg)"
      have branch: "status_code ?r = 429 \<or> (status_code ?r \<noteq> 429 \<and> 500 \<le> status_code ?r)"
        using rt by (auto simp: retryable_def)
      show ?thesis
      proof (cases ?c)
        case (Inl err)
        from branch show ?thesis
        proof
          assume "status_code ?r = 429"
          with Inl aN lt show ?thesis
            by (subst request_loop.simps)
               (simp add: attempt_outcome_def Let_def retryable_def wait_of_def)
        next
          assume "status_code ?r \<noteq> 429 \<and> 500 \<le> status_code ?r"
          with Inl aN lt show ?thesis
            by (subst request_loop.simps)
               (simp add: attempt_outcome_def Let_def retryable_def wait_of_def)
        qed
      next
        case (Inr wt)
        show ?thesis
        proof (cases "sl wt ?eff1")
          case inl: (Inl err)
          from branch show ?thesis
          proof
            assume "status_code ?r = 429"
            with Inr inl aN lt show ?thesis
              by (subst request_loop.simps)
                 (simp add: attempt_outcome_def Let_def retryable_def wait_of_def)
          next
            assume "status_code ?r \<noteq> 429 \<and> 500 \<le> status_code ?r"
            with Inr inl aN lt show ?thesis
              by (subst request_loop.simps)
                 (simp add: attempt_outcome_def Let_def retryable_def wait_of_def)
          qed
        next
          case inr: (Inr e2)
          from branch show ?thesis
          proof
            assume "status_code ?r = 429"
            with Inr inr aN lt show ?thesis
              by (subst request_loop.simps)
                 (simp add: attempt_outcome_def Let_def retryable_def wait_of_def)
          next
            assume "status_code ?r \<noteq> 429 \<and> 500 \<le> status_code ?r"
            with Inr inr aN lt show ?thesis
              by (subst request_loop.simps)
                 (simp add: attempt_outcome_def Let_def retryable_def wait_of_def)
          qed
        qed
      qed
    qed
  qed
qed

lemma attempt_outcome_Again:
  assumes "attempt_outcome sl mv pf cfg send a eff = Again x e"
  obtains w where "400 \<le> status_code (send (calls eff))"
    and "retryable cfg (send (calls eff)) a"
    and "wait_of pf cfg (send (calls eff)) a = Inr w"
    and "sl w (eff\<lparr>calls := calls eff + 1\<rparr>) = Inr e"
  using assms
  by (auto simp: attempt_outcome_def Let_def split: if_splits sum.splits)

lemma attempt_outcome_Stop:
  assumes "attempt_outcome sl mv pf cfg send a eff = Stop r e"
  shows "e = eff\<lparr>calls := calls eff + 1\<rparr>
     \<and> (status_code (send (calls eff)) < 400 \<longrightarrow> r = success_result (send (calls eff)))
     \<and> (400 \<le> status_code (send (calls eff)) \<and> \<not> retryable cfg (send (calls eff)) a \<longrightarrow>
          r = Inl (Raised (build_exception mv pf (send (calls eff)))))"
  using assms
  by (auto simp: attempt_outcome_def Let_def split: if_splits sum.splits)

text \<open>
  The shape of every run that makes at least one attempt: \<open>k\<close> retried attempts, each
  on a retryable response and each followed by its sleep, and then the attempt that ends
  the request.
\<close>

lemma request_loop_trace:
  assumes sl: "\<And>w e e'. sl w e = Inr e' \<Longrightarrow> e' = e\<lparr>sleeps := sleeps e @ [w]\<rparr>"
  shows "request_loop sl mv pf cfg send a lst eff = (res, eff') \<Longrightarrow> a \<le> max_retries cfg \<Longrightarrow>
    \<exists>k. calls eff' = calls eff + k + 1 \<and> a + int k \<le> max_retries cfg
       \<and> (\<forall>j<k. retryable cfg (send (calls eff + j)) (a + int j)
                \<and> 400 \<le> status_code (send (calls eff + j)))
       \<and> map Inr (sleeps eff') =
           map Inr (sleeps eff)
             @ map (\<lambda>j. wait_of pf cfg (send (calls eff + j)) (a + int j)) [0..<k]
       \<and> (status_code (send (calls eff + k)) < 400 \<longrightarrow>
             res = success_result (send (calls eff + k)))
       \<and> (400 \<le> status_code (send (calls eff + k))
           \<and> \<not> retryable cfg (send (calls eff + k)) (a + int k) \<longrightarrow>
             res = Inl (Raised (build_exception mv pf (send (calls eff + k)))))"
proof (induction "nat (max_retries cfg - a)" arbitrary: a lst eff)
  case 0
  then have aN: "a = max_retries cfg" by simp
  let ?r = "send (calls eff)"
  have nr: "\<not> retryable cfg ?r a" by (simp add: retryable_def aN)
  have out: "attempt_outcome sl mv pf cfg send a eff =
      (if status_code ?r < 400 then Stop (success_result ?r) (eff\<lparr>calls := calls eff + 1\<rparr>)
       else Stop (Inl (Raised (build_exception mv pf ?r))) (eff\<lparr>calls := calls eff + 1\<rparr>))"
    using nr by (simp add: attempt_outcome_def Let_def)
  have lt: "a < max_retries cfg + 1" using aN by simp
  from 0(2) have "(res, eff') =
      (if status_code ?r < 400 then (success_result ?r, eff\<lparr>calls := calls eff + 1\<rparr>)
       else (Inl (Raised (build_exception mv pf ?r)), eff\<lparr>calls := calls eff + 1\<rparr>))"
    unfolding request_loop_unfold [of sl mv pf cfg send a lst eff] out using lt
    by (simp split: if_splits)
  then show ?case
    using nr aN by (intro exI [of _ 0]) (auto split: if_splits)
next
  case (Suc n)
  then have aN: "a < max_retries cfg" by simp
  let ?r = "send (calls eff)"
  show ?case
  proof (cases "attempt_outcome sl mv pf cfg send a eff")
    case (Stop r e)
    with Suc(3) aN have "res = r" "eff' = e"
      by (subst (asm) request_loop_unfold; simp)+
    with attempt_outcome_Stop [OF Stop] show ?thesis
      using aN by (intro exI [of _ 0]) simp
  next
    case (Again x e)
    with Suc(3) aN have run: "request_loop sl mv pf cfg send (a + 1) (Some x) e = (res, eff')"
      by (subst (asm) request_loop_unfold) simp
    from Again obtain w where ge: "400 \<le> status_code ?r" and rt: "retryable cfg ?r a"
      and w: "wait_of pf cfg ?r a = Inr w"
      and sle: "sl w (eff\<lparr>calls := calls eff + 1\<rparr>) = Inr e"
      by (rule attempt_outcome_Again)
    from sl [OF sle]
    have e: "e = eff\<lparr>calls := calls eff + 1, sleeps := sleeps eff @ [w]\<rparr>"
      by simp
    have n: "n = nat (max_retries cfg - (a + 1))" using Suc(2) by simp
    from Suc(1) [OF n run] aN obtain k where k:
      "calls eff' = calls e + k + 1" "a + 1 + int k \<le> max_retries cfg"
      "\<forall>j<k. retryable cfg (send (calls e + j)) (a + 1 + int j)
             \<and> 400 \<le> status_code (send (calls e + j))"
      "map Inr (sleeps eff') =
         map Inr (sleeps e)
           @ map (\<lambda>j. wait_of pf cfg (send (calls e + j)) (a + 1 + int j)) [0..<k]"
      "status_code (send (calls e + k)) < 400 \<longrightarrow> res = success_result (send (calls e + k))"
      "400 \<le> status_code (send (calls e + k))
         \<and> \<not> retryable cfg (send (calls e + k)) (a + 1 + int k) \<longrightarrow>
           res = Inl (Raised (build_exception mv pf (send (calls e + k))))"
      by auto
    have ce: "calls e = calls eff + 1" by (simp add: e)
    have shift: "\<And>j. calls e + j = calls eff + Suc j" "\<And>j. a + 1 + int j = a + int (Suc j)"
      by (simp_all add: ce)
    have map_eq: "map Inr (sleeps e)
          @ map (\<lambda>j. wait_of pf cfg (send (calls e + j)) (a + 1 + int j)) [0..<k]
        = map Inr (sleeps eff)
          @ map (\<lambda>j. wait_of pf cfg (send (calls eff + j)) (a + int j)) [0..<Suc k]"
      unfolding shift
      by (simp add: e w upt_conv_Cons map_Suc_upt [symmetric] del: upt_Suc)
    show ?thesis
    proof (intro exI [of _ "Suc k"] conjI)
      show "calls eff' = calls eff + Suc k + 1" using k(1) ce by simp
      show "a + int (Suc k) \<le> max_retries cfg" using k(2) by simp
      show "\<forall>j<Suc k. retryable cfg (send (calls eff + j)) (a + int j)
                \<and> 400 \<le> status_code (send (calls eff + j))"
      proof (intro allI impI)
        fix j assume "j < Suc k"
        show "retryable cfg (send (calls eff + j)) (a + int j)
                \<and> 400 \<le> status_code (send (calls eff + j))"
        proof (cases j)
          case 0 with rt ge show ?thesis by simp
        next
          case (Suc j')
          with \<open>j < Suc k\<close> k(3)
          have "retryable cfg (send (calls e + j')) (a + 1 + int j')
                \<and> 400 \<le> status_code (send (calls e + j'))"
            by simp
          then show ?thesis unfolding shift Suc .
        qed
      qed
      show "map Inr (sleeps eff') =
           map Inr (sleeps eff)
             @ map (\<lambda>j. wait_of pf cfg (send (calls eff + j)) (a + int j)) [0..<Suc k]"
        using k(4) map_eq by simp
      show "status_code (send (calls eff + Suc k)) < 400 \<longrightarrow>
             res = success_result (send (calls eff + Suc k))"
        using k(5) unfolding shift .
      show "400 \<le> status_code (send (calls eff + Suc k))
           \<and> \<not> retryable cfg (send (calls eff + Suc k)) (a + int (Suc k)) \<longrightarrow>
             res = Inl (Raised (build_exception mv pf (send (calls eff + Suc k))))"
        using k(6) unfolding shift .
    qed
  qed
qed

lemma time_sleep_appends: "time_sleep w e = Inr e' \<Longrightarrow> e' = e\<lparr>sleeps := sleeps e @ [w]\<rparr>"
  by (cases w) (auto split: if_splits)

lemma asyncio_sleep_appends: "asyncio_sleep w e = Inr e' \<Longrightarrow> e' = e\<lparr>sleeps := sleeps e @ [w]\<rparr>"
  by (cases w) auto

lemma request_trace:
  assumes req: "request = request_sync \<or> request = request_async"
    and run: "request mv pf cfg send = (res, eff)"
    and N: "0 \<le> max_retries cfg"
  shows "\<exists>k. calls eff = k + 1 \<and> int k \<le> max_retries cfg
       \<and> (\<forall>j<k. retryable cfg (send j) (int j) \<and> 400 \<le> status_code (send j))
       \<and> map Inr (sleeps eff) = map (\<lambda>j. wait_of pf cfg (send j) (int j)) [0..<k]
       \<and> (status_code (send k) < 400 \<longrightarrow> res = success_result (send k))
       \<and> (400 \<le> status_code (send k) \<and> \<not> retryable cfg (send k) (int k)
             \<longrightarrow> res = Inl (Raised (build_exception mv pf (send k))))"
proof -
  from req show ?thesis
  proof
    assume "request = request_sync"
    with run have "request_loop time_sleep mv pf cfg send 0 None \<lparr>calls = 0, sleeps = []\<rparr>
        = (res, eff)"
      by (simp add: request_sync_def)
    from request_loop_trace [of time_sleep mv pf cfg send 0 None "\<lparr>calls = 0, sleeps = []\<rparr>"
        res eff, OF time_sleep_appends this N]
    show ?thesis by auto
  next
    assume "request = request_async"
    with run have "request_loop asyncio_sleep mv pf cfg send 0 None \<lparr>calls = 0, sleeps = []\<rparr>
        = (res, eff)"
      by (simp add: request_async_def)
    from request_loop_trace [of asyncio_sleep mv pf cfg send 0 None "\<lparr>calls = 0, sleeps = []\<rparr>"
        res eff, OF asyncio_sleep_appends this N]
    show ?thesis by auto
  qed
qed

lemma calculate_backoff_factor_zero:
  "0 \<le> a \<Longrightarrow> a \<le> 1023 \<Longrightarrow> calculate_backoff a None 0 = Inr (Finite 0)"
  by (simp add: calculate_backoff_def float_mul_pow2_zero)

lemma scenario_500:
  assumes req: "request = request_sync \<or> request = request_async"
    and all500: "\<And>j. status_code (send j) = 500"
    and N: "max_retries cfg = 1" and f: "retry_backoff_factor cfg = 0"
  shows "request mv pf cfg send =
     (Inl (Raised (build_exception mv pf (send 1))), \<lparr>calls = 2, sleeps = [Finite 0]\<rparr>)"
  using req
  by (auto simp: request_sync_def request_async_def request_loop_unfold attempt_outcome_def
      all500 N f retryable_def wait_of_def calculate_backoff_factor_zero)

lemma first_success:
  assumes req: "request = request_sync \<or> request = request_async"
    and N: "0 \<le> max_retries cfg" and ok: "status_code (send 0) < 400"
  shows "request mv pf cfg send = (success_result (send 0), \<lparr>calls = 1, sleeps = []\<rparr>)"
  using req N ok
  by (auto simp: request_sync_def request_async_def request_loop_unfold attempt_outcome_def)

text \<open>
  Claim C1, as stated, fails in its last sentence: when every attempt returns status 500
  with a body that is not JSON, under \<open>max_retries = 1\<close> and backoff factor 0, the
  pipeline makes 2 calls and raises the generic error of the classifier's fallback, not a
  Server error.
\<close>

theorem request_500_unparseable_body_counterexample:
  "status_code response_500_text = 500
   \<and> request_sync model_validate_typed float_decimal
        \<lparr>max_retries = 1, retry_backoff_factor = 0\<rparr> (\<lambda>k. response_500_text) =
      (Inl (Raised \<lparr>exc_class = NetSuiteError, message = ''HTTP 500'', status = Some 500,
                     error_code = None, error_details = [], retry_after = None\<rparr>),
       \<lparr>calls = 2, sleeps = [Finite 0]\<rparr>)"
  by (simp add: request_sync_def request_loop_unfold attempt_outcome_def response_500_text_def
      retryable_def wait_of_def calculate_backoff_factor_zero build_exception_def
      NetSuiteError_init_def str_int_def str_nat.simps)

text \<open>
  Claim C1, amended. Let \<open>request\<close> be \<^verbatim>\<open>_request_sync\<close> or \<^verbatim>\<open>_request_async\<close>, run with
  \<open>max_retries = N \<ge> 0\<close> against any sequence \<open>send\<close> of responses. It makes at least one
  and at most \<open>N + 1\<close> physical calls. Every attempt \<open>j\<close> that is followed by another one
  had status 429 or at least 500 and had attempts left (\<open>j < N\<close>), and the sleeps are exactly
  the backoffs of those attempts (with the parsed \<^verbatim>\<open>Retry-After\<close> hint for a 429 and no hint
  otherwise), each computed without an error. When the last attempt has status at least
  400 and is not such a retry case, the request raises the classified error of that
  attempt. In particular, when every
  attempt returns status 500, under \<open>N = 1\<close> and backoff factor 0, there are exactly 2
  calls and the error raised is the classified error of the second response: a Server
  error when its body validates as the error payload, the generic error when it does not.
\<close>

theorem request_attempts_bounded:
  assumes "request = request_sync \<or> request = request_async"
    and "request model_validate py_float config send = (res, eff)"
    and "0 \<le> max_retries config"
  shows "1 \<le> calls eff \<and> int (calls eff) \<le> max_retries config + 1
     \<and> (\<forall>j. Suc j < calls eff \<longrightarrow>
           (status_code (send j) = 429 \<or> 500 \<le> status_code (send j))
           \<and> int j < max_retries config)
     \<and> map Inr (sleeps eff) =
         map (\<lambda>j. calculate_backoff (int j)
                     (if status_code (send j) = 429 then parse_retry_after py_float (send j)
                      else None)
                     (retry_backoff_factor config))
           [0..<calls eff - 1]
     \<and> (400 \<le> status_code (send (calls eff - 1))
         \<and> \<not> ((status_code (send (calls eff - 1)) = 429
                 \<or> 500 \<le> status_code (send (calls eff - 1)))
                \<and> int (calls eff - 1) < max_retries config) \<longrightarrow>
           res = Inl (Raised (build_exception model_validate py_float (send (calls eff - 1)))))
     \<and> ((\<forall>j. status_code (send j) = 500) \<and> max_retries config = 1
         \<and> retry_backoff_factor config = 0 \<longrightarrow>
           calls eff = 2
           \<and> res = Inl (Raised (build_exception model_validate py_float (send 1)))
           \<and> exc_class (build_exception model_validate py_float (send 1)) =
               (if Option.bind (json_body (send 1)) model_validate = None then NetSuiteError
                else ServerError))"
proof -
  from request_trace [OF assms] obtain k where k:
    "calls eff = k + 1" "int k \<le> max_retries config"
    "\<forall>j<k. retryable config (send j) (int j) \<and> 400 \<le> status_code (send j)"
    "map Inr (sleeps eff) = map (\<lambda>j. wait_of py_float config (send j) (int j)) [0..<k]"
    "400 \<le> status_code (send k) \<and> \<not> retryable config (send k) (int k)
       \<longrightarrow> res = Inl (Raised (build_exception model_validate py_float (send k)))"
    by blast
  have k1: "calls eff - 1 = k" using k(1) by simp
  have bound: "1 \<le> calls eff \<and> int (calls eff) \<le> max_retries config + 1"
    using k(1,2) by simp
  have retried: "\<forall>j. Suc j < calls eff \<longrightarrow>
           (status_code (send j) = 429 \<or> 500 \<le> status_code (send j))
           \<and> int j < max_retries config"
    using k(1,3) by (simp add: retryable_def)
  have slept: "map Inr (sleeps eff) =
         map (\<lambda>j. calculate_backoff (int j)
                     (if status_code (send j) = 429 then parse_retry_after py_float (send j)
                      else None)
                     (retry_backoff_factor config))
           [0..<calls eff - 1]"
    unfolding k1 using k(4) by (simp add: wait_of_def)
  have final: "400 \<le> status_code (send (calls eff - 1))
         \<and> \<not> ((status_code (send (calls eff - 1)) = 429
                 \<or> 500 \<le> status_code (send (calls eff - 1)))
                \<and> int (calls eff - 1) < max_retries config) \<longrightarrow>
           res = Inl (Raised (build_exception model_validate py_float (send (calls eff - 1))))"
    unfolding k1 using k(5) by (simp add: retryable_def)
  have scenario: "calls eff = 2
           \<and> res = Inl (Raised (build_exception model_validate py_float (send 1)))
           \<and> exc_class (build_exception model_validate py_float (send 1)) =
               (if Option.bind (json_body (send 1)) model_validate = None then NetSuiteError
                else ServerError)"
    if h: "(\<forall>j. status_code (send j) = 500) \<and> max_retries config = 1
         \<and> retry_backoff_factor config = 0"
  proof -
    from h have all500: "\<And>j. status_code (send j) = 500" by simp
    from scenario_500 [of request send config model_validate py_float, OF assms(1) all500] h assms(2)
    have run: "calls eff = 2"
      "res = Inl (Raised (build_exception model_validate py_float (send 1)))"
      by auto
    have cls: "exc_class (build_exception model_validate py_float (send 1)) =
               (if Option.bind (json_body (send 1)) model_validate = None then NetSuiteError
                else ServerError)"
    proof (cases "Option.bind (json_body (send 1)) model_validate")
      case None
      then show ?thesis by (simp add: build_exception_fallback)
    next
      case (Some q)
      then obtain b where "json_body (send 1) = Some b" and "model_validate b = Some q"
        by (cases "json_body (send 1)") auto
      from build_exception_parsed [of "send 1" b model_validate q py_float, OF this] Some
      show ?thesis
        by (simp add: Let_def STATUS_EXCEPTION_MAP_cases all500)
    qed
    from run cls show ?thesis by simp
  qed
  from bound retried slept final scenario show ?thesis by blast
qed

text \<open>
  An instance: every attempt returns 500 with the JSON error body, \<open>max_retries = 1\<close>,
  backoff factor 0, through \<^verbatim>\<open>_request_sync\<close>.
\<close>

theorem request_attempts_bounded_witness:
  "calls (snd (request_sync model_validate_typed float_decimal
        \<lparr>max_retries = 1, retry_backoff_factor = 0\<rparr> (\<lambda>k. response_500_json))) = 2
   \<and> fst (request_sync model_validate_typed float_decimal
        \<lparr>max_retries = 1, retry_backoff_factor = 0\<rparr> (\<lambda>k. response_500_json)) =
      Inl (Raised \<lparr>exc_class = ServerError, message = ''Server error'', status = Some 500,
                    error_code = Some [], error_details = [], retry_after = None\<rparr>)"
  using request_attempts_bounded
    [of request_sync model_validate_typed float_decimal
        "\<lparr>max_retries = 1, retry_backoff_factor = 0\<rparr>" "\<lambda>k. response_500_json"
        "fst (request_sync model_validate_typed float_decimal
           \<lparr>max_retries = 1, retry_backoff_factor = 0\<rparr> (\<lambda>k. response_500_json))"
        "snd (request_sync model_validate_typed float_decimal
           \<lparr>max_retries = 1, retry_backoff_factor = 0\<rparr> (\<lambda>k. response_500_json))"]
  by (simp add: response_500_json_def build_exception_def get_field_def STATUS_EXCEPTION_MAP_def
      NetSuiteError_init_def)

text \<open>
  Claim C9, as stated, fails: a 200 response whose body is neither empty nor JSON does not
  make the pipeline succeed; the error that \<^verbatim>\<open>response.json()\<close> raises leaves the pipeline.
\<close>

theorem request_200_not_json_counterexample:
  "status_code response_200_html < 400
   \<and> request_sync model_validate_typed float_decimal
        \<lparr>max_retries = 3, retry_backoff_factor = 1\<rparr> (\<lambda>k. response_200_html) =
      (Inl JSONDecodeError, \<lparr>calls = 1, sleeps = []\<rparr>)"
  by (simp add: request_sync_def request_loop_unfold attempt_outcome_def response_200_html_def
      success_result_def)

text \<open>
  Claim C9, amended. Let \<open>request\<close> be \<^verbatim>\<open>_request_sync\<close> or \<^verbatim>\<open>_request_async\<close>, run with
  \<open>max_retries \<ge> 0\<close>. An attempt whose response has status below 400 is the last one, and
  the request then returns the empty object when the status is 204 or the body is empty,
  and otherwise the decoded body when the body decodes as JSON; when it does not decode,
  the decoder's error leaves the pipeline. When the first response is below 400 there is
  one call and no sleep.
\<close>

theorem request_success_below_400:
  assumes "request = request_sync \<or> request = request_async"
    and "request model_validate py_float config send = (res, eff)"
    and "0 \<le> max_retries config"
  shows "(\<forall>j. j < calls eff \<and> status_code (send j) < 400 \<longrightarrow>
            Suc j = calls eff
            \<and> res = (if status_code (send j) = 204 \<or> content (send j) = []
                     then Inr (JObject [])
                     else (case json_body (send j) of
                             None \<Rightarrow> Inl JSONDecodeError
                           | Some body \<Rightarrow> Inr body)))
     \<and> (status_code (send 0) < 400 \<longrightarrow> calls eff = 1 \<and> sleeps eff = [])"
proof -
  from request_trace [OF assms] obtain k where k:
    "calls eff = k + 1"
    "\<forall>j<k. retryable config (send j) (int j) \<and> 400 \<le> status_code (send j)"
    "status_code (send k) < 400 \<longrightarrow> res = success_result (send k)"
    by blast
  have last_one: "Suc j = calls eff
            \<and> res = (if status_code (send j) = 204 \<or> content (send j) = []
                     then Inr (JObject [])
                     else (case json_body (send j) of
                             None \<Rightarrow> Inl JSONDecodeError
                           | Some body \<Rightarrow> Inr body))"
    if "j < calls eff \<and> status_code (send j) < 400" for j
  proof -
    from that k(1) have "j \<le> k" by simp
    moreover have "\<not> j < k" using that k(2) by fastforce
    ultimately have "j = k" by simp
    with that k(1,3) show ?thesis by (simp add: success_result_def)
  qed
  have first: "calls eff = 1 \<and> sleeps eff = []" if "status_code (send 0) < 400"
    using first_success [of request config send model_validate py_float, OF assms(1,3) that]
      assms(2)
    by auto
  from last_one first show ?thesis by blast
qed

text \<open>An instance: a 204 without a body, through \<^verbatim>\<open>_request_sync\<close> with its default settings.\<close>

theorem request_success_below_400_witness:
  "fst (request_sync model_validate_typed float_decimal
        \<lparr>max_retries = 3, retry_backoff_factor = 1\<rparr> (\<lambda>k. response_204)) = Inr (JObject [])
   \<and> calls (snd (request_sync model_validate_typed float_decimal
        \<lparr>max_retries = 3, retry_backoff_factor = 1\<rparr> (\<lambda>k. response_204))) = 1
   \<and> sleeps (snd (request_sync model_validate_typed float_decimal
        \<lparr>max_retries = 3, retry_backoff_factor = 1\<rparr> (\<lambda>k. response_204))) = []"
proof -
  let ?cfg = "\<lparr>max_retries = 3, retry_backoff_factor = 1\<rparr>"
  let ?X = "request_sync model_validate_typed float_decimal ?cfg (\<lambda>k. response_204)"
  have N: "0 \<le> max_retries ?cfg" by simp
  have ok: "status_code response_204 < 400" by (simp add: response_204_def)
  note th = request_success_below_400
    [of request_sync model_validate_typed float_decimal ?cfg "\<lambda>k. response_204"
        "fst ?X" "snd ?X", OF disjI1 [OF refl] prod.collapse [symmetric] N]
  from th ok have one: "calls (snd ?X) = 1" and none: "sleeps (snd ?X) = []"
    by blast+
  from th have "0 < calls (snd ?X) \<and> status_code response_204 < 400 \<longrightarrow>
      fst ?X = (if status_code response_204 = 204 \<or> content response_204 = []
                then Inr (JObject [])
                else (case json_body response_204 of
                        None \<Rightarrow> Inl JSONDecodeError
                      | Some body \<Rightarrow> Inr body))"
    by blast
  with one ok have "fst ?X = Inr (JObject [])"
    by (simp add: response_204_def)
  with one none show ?thesis by simp
qed

subsection \<open>Pagination\<close>

lemma next_cases:
  "SyncPageIterator_next fetch_page (self, w) =
     (if exhausted self then (None, self, w)
      else
        (let page = fst (fetch_page (limit self) (offset self) (fetch_state w));
             w1 = \<lparr>fetch_state = snd (fetch_page (limit self) (offset self) (fetch_state w)),
                   invoked = invoked w @ [(limit self, offset self)]\<rparr>
         in if has_more page then (Some page, self\<lparr>offset := offset self + limit self\<rparr>, w1)
            else if items page = [] then (None, self\<lparr>exhausted := True\<rparr>, w1)
            else (Some page, self\<lparr>exhausted := True\<rparr>, w1)))"
  by (simp add: SyncPageIterator_next_def Let_def split_beta)

lemma anext_eq_next: "AsyncPageIterator_anext = SyncPageIterator_next"
  by (simp add: AsyncPageIterator_anext_def SyncPageIterator_next_def fun_eq_iff)

lemma drain_pages_exhausted:
  "exhausted self \<Longrightarrow> drain_pages fetch_page self w acc = Some (acc, self, w)"
  by (subst drain_pages.simps) (simp add: next_cases)

lemma offsets_shift:
  "(l, off) # map (\<lambda>i. (l, off + l + int i * l)) [0..<n]
     = map (\<lambda>i. (l, off + int i * l)) [0..<Suc n]"
proof -
  have "map (\<lambda>i. (l, off + int i * l)) [0..<Suc n]
      = (l, off) # map (\<lambda>i. (l, off + int i * l)) (map Suc [0..<n])"
    by (simp add: upt_conv_Cons map_Suc_upt del: upt_Suc)
  also have "map (\<lambda>i. (l, off + int i * l)) (map Suc [0..<n])
      = map (\<lambda>i. (l, off + l + int i * l)) [0..<n]"
    by (simp add: algebra_simps)
  finally show ?thesis by simp
qed

lemma drain_pages_yields:
  assumes "drain_pages fetch_page self w acc = Some y"
  shows "\<exists>ys n. fst y = acc @ ys
          \<and> (\<forall>p \<in> set ys. \<not> (items p = [] \<and> \<not> has_more p))
          \<and> (\<forall>p \<in> set (butlast ys). has_more p)
          \<and> exhausted (fst (snd y))
          \<and> invoked (snd (snd y)) =
              invoked w @ map (\<lambda>i. (limit self, offset self + int i * limit self)) [0..<n]
          \<and> (n = length ys \<or> n = Suc (length ys))
          \<and> (exhausted self \<longrightarrow> y = (acc, self, w))"
  using assms
proof (induction rule: drain_pages.raw_induct [rotated, consumes 1])
  case (1 drain fetch_page self w acc y)
  let ?page = "fst (fetch_page (limit self) (offset self) (fetch_state w))"
  let ?w1 = "\<lparr>fetch_state = snd (fetch_page (limit self) (offset self) (fetch_state w)),
              invoked = invoked w @ [(limit self, offset self)]\<rparr>"
  show ?case
  proof (cases "exhausted self")
    case True
    with 1(2) have "y = (acc, self, w)" by (simp add: next_cases)
    with True show ?thesis
      by (intro exI [of _ "[]"] exI [of _ 0]) simp
  next
    case False
    show ?thesis
    proof (cases "has_more ?page")
      case True
      with False 1(2)
      have run: "drain fetch_page (self\<lparr>offset := offset self + limit self\<rparr>) ?w1 (acc @ [?page]) = Some y"
        by (simp add: next_cases Let_def)
      from 1(1) [OF run] obtain ys n where ih:
        "fst y = (acc @ [?page]) @ ys"
        "\<forall>p \<in> set ys. \<not> (items p = [] \<and> \<not> has_more p)"
        "\<forall>p \<in> set (butlast ys). has_more p"
        "exhausted (fst (snd y))"
        "invoked (snd (snd y)) = invoked ?w1 @
           map (\<lambda>i. (limit self, offset self + limit self + int i * limit self)) [0..<n]"
        "n = length ys \<or> n = Suc (length ys)"
        by auto
      have inv: "invoked (snd (snd y)) = invoked w @
           map (\<lambda>i. (limit self, offset self + int i * limit self)) [0..<Suc n]"
        using ih(5) offsets_shift [of "limit self" "offset self" n] by simp
      show ?thesis
      proof (intro exI [of _ "?page # ys"] exI [of _ "Suc n"] conjI)
        show "fst y = acc @ ?page # ys" using ih(1) by simp
        show "\<forall>p \<in> set (?page # ys). \<not> (items p = [] \<and> \<not> has_more p)"
          using ih(2) True by simp
        show "\<forall>p \<in> set (butlast (?page # ys)). has_more p"
          using ih(3) True by simp
        show "exhausted (fst (snd y))" by (rule ih(4))
        show "invoked (snd (snd y)) = invoked w @
           map (\<lambda>i. (limit self, offset self + int i * limit self)) [0..<Suc n]"
          by (rule inv)
        show "Suc n = length (?page # ys) \<or> Suc n = Suc (length (?page # ys))"
          using ih(6) by simp
        show "exhausted self \<longrightarrow> y = (acc, self, w)" using False by simp
      qed
    next
      case nomore: False
      show ?thesis
      proof (cases "items ?page = []")
        case True
        with False nomore 1(2) have "y = (acc, self\<lparr>exhausted := True\<rparr>, ?w1)"
          by (simp add: next_cases Let_def)
        with False show ?thesis
          by (intro exI [of _ "[]"] exI [of _ 1]) simp
      next
        case nonempty: False
        with False nomore 1(2)
        have run: "drain fetch_page (self\<lparr>exhausted := True\<rparr>) ?w1 (acc @ [?page]) = Some y"
          by (simp add: next_cases Let_def)
        from 1(1) [OF run] have "y = (acc @ [?page], self\<lparr>exhausted := True\<rparr>, ?w1)"
          by auto
        with False nonempty show ?thesis
          by (intro exI [of _ "[?page]"] exI [of _ 1]) simp
      qed
    qed
  qed
qed

lemma empty_first_page:
  assumes "fst (fetch_page lmt 0 (fetch_state w)) = \<lparr>items = [], has_more = False\<rparr>"
  shows "drain_pages fetch_page (PageIterator_init lmt 0) w [] =
     Some ([], \<lparr>limit = lmt, offset = 0, exhausted = True\<rparr>,
           \<lparr>fetch_state = snd (fetch_page lmt 0 (fetch_state w)),
            invoked = invoked w @ [(lmt, 0)]\<rparr>)"
  using assms
  by (subst drain_pages.simps) (simp add: next_cases PageIterator_init_def Let_def)

lemma scripted_two_pages:
  "iter_items_sync fetch_scripted lmt
     \<lparr>fetch_state = [\<lparr>items = [1, 2], has_more = True\<rparr>, \<lparr>items = [3], has_more = False\<rparr>],
      invoked = []\<rparr>
   = Some ([1, 2, 3 :: int], \<lparr>fetch_state = [], invoked = [(lmt, 0), (lmt, lmt)]\<rparr>)"
  unfolding iter_items_sync_def
  apply (subst drain_pages.simps)
  apply (simp add: next_cases PageIterator_init_def fetch_scripted_def)
  apply (subst drain_pages.simps)
  apply (simp add: next_cases fetch_scripted_def)
  apply (subst drain_pages.simps)
  apply (simp add: next_cases)
  done

text \<open>
  Claim C8. Against the fetch sequence \<open>(items = [1, 2], more)\<close>, \<open>(items = [3], no more)\<close>
  the flattened stream is exactly \<open>[1, 2, 3]\<close> and the callback is invoked with the
  offsets 0 and \<open>limit\<close>, for every limit. When the first page is empty and reports no
  more, the iterator is drained with zero pages yielded, after the one fetch at offset 0.
  In every run that ends, the fetches are at the offsets \<open>0, limit, 2 * limit, ...\<close>, one
  per yielded page and at most one more, and every yielded page but the last reported
  more available.
\<close>

theorem pagination_offsets_and_items:
  "iter_items_sync fetch_scripted lmt
     \<lparr>fetch_state = [\<lparr>items = [1, 2], has_more = True\<rparr>, \<lparr>items = [3], has_more = False\<rparr>],
      invoked = []\<rparr>
   = Some ([1, 2, 3 :: int], \<lparr>fetch_state = [], invoked = [(lmt, 0), (lmt, lmt)]\<rparr>)
   \<and> (fst (fetch_page lmt 0 (fetch_state w)) = \<lparr>items = [], has_more = False\<rparr> \<longrightarrow>
        drain_pages fetch_page (PageIterator_init lmt 0) w [] =
          Some ([], \<lparr>limit = lmt, offset = 0, exhausted = True\<rparr>,
                \<lparr>fetch_state = snd (fetch_page lmt 0 (fetch_state w)),
                 invoked = invoked w @ [(lmt, 0)]\<rparr>))
   \<and> (drain_pages fetch_page (PageIterator_init lmt 0) w [] = Some (pages, self1, w1) \<longrightarrow>
        (\<exists>n. invoked w1 = invoked w @ map (\<lambda>i. (lmt, int i * lmt)) [0..<n]
             \<and> (n = length pages \<or> n = Suc (length pages)))
        \<and> (\<forall>p \<in> set (butlast pages). has_more p))"
proof (intro conjI impI)
  show "iter_items_sync fetch_scripted lmt
     \<lparr>fetch_state = [\<lparr>items = [1, 2], has_more = True\<rparr>, \<lparr>items = [3], has_more = False\<rparr>],
      invoked = []\<rparr>
   = Some ([1, 2, 3 :: int], \<lparr>fetch_state = [], invoked = [(lmt, 0), (lmt, lmt)]\<rparr>)"
    by (rule scripted_two_pages)
  show "drain_pages fetch_page (PageIterator_init lmt 0) w [] =
          Some ([], \<lparr>limit = lmt, offset = 0, exhausted = True\<rparr>,
                \<lparr>fetch_state = snd (fetch_page lmt 0 (fetch_state w)),
                 invoked = invoked w @ [(lmt, 0)]\<rparr>)"
    if "fst (fetch_page lmt 0 (fetch_state w)) = \<lparr>items = [], has_more = False\<rparr>"
    using that by (rule empty_first_page)
  assume run: "drain_pages fetch_page (PageIterator_init lmt 0) w [] = Some (pages, self1, w1)"
  from drain_pages_yields [OF run] obtain ys n where ys:
    "pages = ys" "\<forall>p \<in> set (butlast ys). has_more p"
    "invoked w1 = invoked w @ map (\<lambda>i. (lmt, int i * lmt)) [0..<n]"
    "n = length ys \<or> n = Suc (length ys)"
    by (auto simp: PageIterator_init_def)
  then show "\<exists>n. invoked w1 = invoked w @ map (\<lambda>i. (lmt, int i * lmt)) [0..<n]
             \<and> (n = length pages \<or> n = Suc (length pages))"
    by blast
  from ys show "\<forall>p \<in> set (butlast pages). has_more p"
    by simp
qed

text \<open>An instance: limit 10 and a callback whose first page is empty and final.\<close>

theorem pagination_offsets_and_items_witness:
  "iter_items_sync fetch_scripted 10
     \<lparr>fetch_state = [\<lparr>items = [1, 2], has_more = True\<rparr>, \<lparr>items = [3], has_more = False\<rparr>],
      invoked = []\<rparr>
   = Some ([1, 2, 3 :: int], \<lparr>fetch_state = [], invoked = [(10, 0), (10, 10)]\<rparr>)
   \<and> drain_pages fetch_scripted (PageIterator_init 10 0)
        \<lparr>fetch_state = [\<lparr>items = ([] :: int list), has_more = False\<rparr>], invoked = []\<rparr> [] =
      Some ([], \<lparr>limit = 10, offset = 0, exhausted = True\<rparr>,
            \<lparr>fetch_state = [], invoked = [(10, 0)]\<rparr>)"
  using pagination_offsets_and_items
    [of 10 fetch_scripted
        "\<lparr>fetch_state = [\<lparr>items = ([] :: int list), has_more = False\<rparr>], invoked = []\<rparr>"]
  by (simp add: fetch_scripted_def)

text \<open>
  Claim C10. Let \<open>step\<close> be \<^verbatim>\<open>SyncPageIterator.__next__\<close> or \<^verbatim>\<open>AsyncPageIterator.__anext__\<close>
  over any callback, in any state of the iterator (any offset, so any position). When
  the fetched page is empty and reports no more, the step stops the iteration without
  yielding the page. A page that a step yields is never both empty and final. After a
  fetched page that reports no more the iterator is exhausted, and a step of an exhausted
  iterator stops at once and leaves the world as it is: the callback is not invoked. For a
  whole run that ends: no yielded page is both empty and final, every yielded page but
  the last reported more, and the iterator ends exhausted.
\<close>

theorem page_iterator_stops_on_empty_final_page:
  assumes "step = SyncPageIterator_next fetch_page \<or> step = AsyncPageIterator_anext fetch_page"
  shows "(\<not> exhausted self
          \<and> items (fst (fetch_page (limit self) (offset self) (fetch_state w))) = []
          \<and> \<not> has_more (fst (fetch_page (limit self) (offset self) (fetch_state w))) \<longrightarrow>
            step (self, w) =
              (None, self\<lparr>exhausted := True\<rparr>,
               \<lparr>fetch_state = snd (fetch_page (limit self) (offset self) (fetch_state w)),
                invoked = invoked w @ [(limit self, offset self)]\<rparr>))
     \<and> (\<forall>p self1 w1. step (self, w) = (Some p, self1, w1) \<longrightarrow>
            \<not> (items p = [] \<and> \<not> has_more p))
     \<and> (\<not> exhausted self
          \<and> \<not> has_more (fst (fetch_page (limit self) (offset self) (fetch_state w))) \<longrightarrow>
            exhausted (fst (snd (step (self, w)))))
     \<and> (exhausted self \<longrightarrow> step (self, w) = (None, self, w))
     \<and> (drain_pages fetch_page self w [] = Some (pages, self1, w1) \<longrightarrow>
            (\<forall>p \<in> set pages. \<not> (items p = [] \<and> \<not> has_more p))
            \<and> (\<forall>p \<in> set (butlast pages). has_more p)
            \<and> exhausted self1)"
proof -
  from assms have step: "step = SyncPageIterator_next fetch_page"
    by (auto simp: anext_eq_next)
  have run: "(\<forall>p \<in> set pages. \<not> (items p = [] \<and> \<not> has_more p))
            \<and> (\<forall>p \<in> set (butlast pages). has_more p)
            \<and> exhausted self1"
    if "drain_pages fetch_page self w [] = Some (pages, self1, w1)"
    using drain_pages_yields [OF that] by auto
  have steps: "(\<not> exhausted self
          \<and> items (fst (fetch_page (limit self) (offset self) (fetch_state w))) = []
          \<and> \<not> has_more (fst (fetch_page (limit self) (offset self) (fetch_state w))) \<longrightarrow>
            step (self, w) =
              (None, self\<lparr>exhausted := True\<rparr>,
               \<lparr>fetch_state = snd (fetch_page (limit self) (offset self) (fetch_state w)),
                invoked = invoked w @ [(limit self, offset self)]\<rparr>))
     \<and> (\<forall>p self1 w1. step (self, w) = (Some p, self1, w1) \<longrightarrow>
            \<not> (items p = [] \<and> \<not> has_more p))
     \<and> (\<not> exhausted self
          \<and> \<not> has_more (fst (fetch_page (limit self) (offset self) (fetch_state w))) \<longrightarrow>
            exhausted (fst (snd (step (self, w)))))
     \<and> (exhausted self \<longrightarrow> step (self, w) = (None, self, w))"
    unfolding step next_cases by (auto simp: Let_def split: if_splits)
  from steps run show ?thesis by blast
qed

text \<open>
  An instance at the third position: limit 10, offset 20, a callback about to serve an
  empty final page, through \<^verbatim>\<open>AsyncPageIterator.__anext__\<close>; and the step after it.
\<close>

theorem page_iterator_stops_on_empty_final_page_witness:
  "AsyncPageIterator_anext fetch_scripted
     (\<lparr>limit = 10, offset = 20, exhausted = False\<rparr>,
      \<lparr>fetch_state = [\<lparr>items = ([] :: int list), has_more = False\<rparr>],
       invoked = [(10, 0), (10, 10)]\<rparr>) =
     (None, \<lparr>limit = 10, offset = 20, exhausted = True\<rparr>,
      \<lparr>fetch_state = [], invoked = [(10, 0), (10, 10), (10, 20)]\<rparr>)
   \<and> AsyncPageIterator_anext fetch_scripted
       (\<lparr>limit = 10, offset = 20, exhausted = True\<rparr>,
        \<lparr>fetch_state = ([] :: int PaginatedResponse list),
         invoked = [(10, 0), (10, 10), (10, 20)]\<rparr>) =
       (None, \<lparr>limit = 10, offset = 20, exhausted = True\<rparr>,
        \<lparr>fetch_state = [], invoked = [(10, 0), (10, 10), (10, 20)]\<rparr>)"
  using page_iterator_stops_on_empty_final_page
    [of "AsyncPageIterator_anext fetch_scripted" fetch_scripted
        "\<lparr>limit = 10, offset = 20, exhausted = False\<rparr>"
        "\<lparr>fetch_state = [\<lparr>items = ([] :: int list), has_more = False\<rparr>],
          invoked = [(10, 0), (10, 10)]\<rparr>"]
    page_iterator_stops_on_empty_final_page
    [of "AsyncPageIterator_anext fetch_scripted" fetch_scripted
        "\<lparr>limit = 10, offset = 20, exhausted = True\<rparr>"
        "\<lparr>fetch_state = ([] :: int PaginatedResponse list),
          invoked = [(10, 0), (10, 10), (10, 20)]\<rparr>"]
  by (simp add: fetch_scripted_def)

subsection \<open>Token-based signing\<close>

lemma hex_digit_inj: "hex_digit m = hex_digit n \<Longrightarrow> m < 16 \<Longrightarrow> n < 16 \<Longrightarrow> m = n"
proof -
  assume eq: "hex_digit m = hex_digit n" and m: "m < 16" and n: "n < 16"
  have d: "distinct ''0123456789ABCDEF''" by simp
  have l: "length ''0123456789ABCDEF'' = 16" by simp
  from nth_eq_iff_index_eq [OF d, of m n] eq m n l show "m = n"
    by (simp add: hex_digit_def)
qed

lemma hex_digit_mem: "n < 16 \<Longrightarrow> hex_digit n \<in> set ''0123456789ABCDEF''"
  unfolding hex_digit_def by (rule nth_mem) simp

lemma of_char_less_256: "(of_char c :: nat) < 256"
  by (cases c) simp

lemma of_char_div_16: "(of_char c :: nat) div 16 < 16"
  using of_char_less_256 [of c] by (intro less_mult_imp_div_less) simp

lemma quote_char_nonempty: "quote_char c \<noteq> []"
  by (simp add: quote_char_def)

lemma not_unreserved_percent: "\<not> unreserved CHR ''%''"
  by (simp add: unreserved_def)

lemma quote_char_cancel:
  assumes "quote_char c @ s = quote_char d @ t"
  shows "c = d \<and> s = t"
proof (cases "unreserved c"; cases "unreserved d")
  assume "unreserved c" "unreserved d"
  with assms show ?thesis by (simp add: quote_char_def)
next
  assume c: "unreserved c" and d: "\<not> unreserved d"
  with assms have "c = CHR ''%''" by (simp add: quote_char_def)
  with c not_unreserved_percent show ?thesis by simp
next
  assume c: "\<not> unreserved c" and d: "unreserved d"
  with assms have "d = CHR ''%''" by (simp add: quote_char_def)
  with d not_unreserved_percent show ?thesis by simp
next
  assume c: "\<not> unreserved c" and d: "\<not> unreserved d"
  with assms have hi: "hex_digit (of_char c div 16) = hex_digit (of_char d div 16)"
    and lo: "hex_digit (of_char c mod 16) = hex_digit (of_char d mod 16)"
    and st: "s = t"
    by (simp_all add: quote_char_def)
  have "(of_char c :: nat) div 16 < 16" "(of_char d :: nat) div 16 < 16"
    by (rule of_char_div_16)+
  with hi have h: "(of_char c :: nat) div 16 = of_char d div 16"
    by (rule hex_digit_inj)
  have l: "(of_char c :: nat) mod 16 = of_char d mod 16"
    using lo by (rule hex_digit_inj) simp_all
  have "(of_char c :: nat) = of_char d"
    using h l by (metis div_mult_mod_eq)
  then have "c = d" by simp
  with st show ?thesis by simp
qed

lemma percent_encode_inj: "percent_encode s = percent_encode t \<Longrightarrow> s = t"
proof (induction s arbitrary: t)
  case Nil
  then show ?case
    by (cases t) (simp_all add: percent_encode_def quote_char_nonempty)
next
  case (Cons c s)
  show ?case
  proof (cases t)
    case Nil
    with Cons.prems show ?thesis
      by (simp add: percent_encode_def quote_char_nonempty)
  next
    case (Cons d t')
    with Cons.prems have "quote_char c @ percent_encode s = quote_char d @ percent_encode t'"
      by (simp add: percent_encode_def)
    then have "c = d \<and> percent_encode s = percent_encode t'"
      by (rule quote_char_cancel)
    with Cons.IH [of t'] Cons show ?thesis by simp
  qed
qed

lemma percent_encode_chars:
  "x \<in> set (percent_encode s) \<Longrightarrow>
     unreserved x \<or> x = CHR ''%'' \<or> x \<in> set ''0123456789ABCDEF''"
proof -
  assume "x \<in> set (percent_encode s)"
  then obtain c where "x \<in> set (quote_char c)"
    by (auto simp: percent_encode_def)
  moreover have "(of_char c :: nat) div 16 < 16"
    by (rule of_char_div_16)
  moreover have "(of_char c :: nat) mod 16 < 16" by simp
  ultimately show ?thesis
    using hex_digit_mem [of "of_char c div 16"] hex_digit_mem [of "of_char c mod 16"]
    by (auto simp: quote_char_def split: if_splits)
qed

lemma percent_encode_no_amp: "CHR ''&'' \<notin> set (percent_encode s)"
  using percent_encode_chars [of "CHR ''&''" s] by (auto simp: unreserved_def)

lemma percent_encode_no_eq: "CHR ''='' \<notin> set (percent_encode s)"
  using percent_encode_chars [of "CHR ''=''" s] by (auto simp: unreserved_def)

lemma split_at_sep:
  "c \<notin> set a \<Longrightarrow> c \<notin> set b \<Longrightarrow> a @ c # s = b @ c # t \<Longrightarrow> a = b \<and> s = t"
proof (induction a arbitrary: b)
  case Nil
  then show ?case by (cases b) auto
next
  case (Cons x a)
  then show ?case by (cases b) auto
qed

lemma list_shape:
  obtains "ys = []" | y where "ys = [y]" | y y' ys' where "ys = y # y' # ys'"
  by (cases ys; cases "tl ys") auto

lemma join_amp_inj:
  assumes "\<forall>x \<in> set xs. x \<noteq> [] \<and> CHR ''&'' \<notin> set x"
    and "\<forall>y \<in> set ys. y \<noteq> [] \<and> CHR ''&'' \<notin> set y"
    and "join ''&'' xs = join ''&'' ys"
  shows "xs = ys"
  using assms
proof (induction "''&''" xs arbitrary: ys rule: join.induct)
  case 1
  then show ?case
    by (cases ys rule: list_shape) simp_all
next
  case (2 x)
  show ?case
  proof (cases ys rule: list_shape)
    case 1 with 2 show ?thesis by simp
  next
    case (2 y) with "2.prems" show ?thesis by simp
  next
    case (3 y y' ys')
    with "2.prems" have "x = y @ CHR ''&'' # join ''&'' (y' # ys')" by simp
    then have "CHR ''&'' \<in> set x" by simp
    with "2.prems" show ?thesis by simp
  qed
next
  case (3 x x' xs)
  show ?case
  proof (cases ys rule: list_shape)
    case 1 with "3.prems" show ?thesis by simp
  next
    case (2 y)
    with "3.prems" have "y = x @ CHR ''&'' # join ''&'' (x' # xs)" by simp
    then have "CHR ''&'' \<in> set y" by simp
    with "3.prems" 2 show ?thesis by simp
  next
    case (3 y y' ys')
    with "3.prems" have eq:
      "x @ CHR ''&'' # join ''&'' (x' # xs) = y @ CHR ''&'' # join ''&'' (y' # ys')"
      by simp
    from "3.prems" 3 have "CHR ''&'' \<notin> set x" "CHR ''&'' \<notin> set y" by simp_all
    from split_at_sep [OF this eq] have xy: "x = y"
      and rest: "join ''&'' (x' # xs) = join ''&'' (y' # ys')"
      by simp_all
    from "3.hyps" [of "y' # ys'"] "3.prems" 3 rest have "x' # xs = y' # ys'" by simp
    with xy 3 show ?thesis by simp
  qed
qed

lemma urlencode_inj: "urlencode ps = urlencode qs \<Longrightarrow> ps = qs"
proof -
  let ?enc = "\<lambda>(k, v). percent_encode k @ ''='' @ percent_encode v"
  assume "urlencode ps = urlencode qs"
  then have j: "join ''&'' (map ?enc ps) = join ''&'' (map ?enc qs)"
    by (simp add: urlencode_def)
  have ok: "\<forall>x \<in> set (map ?enc zs). x \<noteq> [] \<and> CHR ''&'' \<notin> set x" for zs
    using percent_encode_no_amp by (auto simp: split_beta)
  from join_amp_inj [OF ok ok j] have m: "map ?enc ps = map ?enc qs" .
  have "inj ?enc"
  proof (rule injI)
    fix p q assume "?enc p = ?enc q"
    then have "percent_encode (fst p) @ CHR ''='' # percent_encode (snd p)
        = percent_encode (fst q) @ CHR ''='' # percent_encode (snd q)"
      by (simp add: split_beta)
    from split_at_sep [OF percent_encode_no_eq percent_encode_no_eq this]
    show "p = q"
      by (auto dest: percent_encode_inj intro: prod_eqI)
  qed
  with m show "ps = qs" by (simp add: inj_map_eq_map)
qed

lemma base_string_inj:
  assumes "signature_base_string r1 ps1 = signature_base_string r2 ps2"
  shows "str_upper (request_method r1) = str_upper (request_method r2)
     \<and> url_base (request_url r1) = url_base (request_url r2)
     \<and> sort_key fst (all_params ps1 r1) = sort_key fst (all_params ps2 r2)"
proof -
  let ?m1 = "percent_encode (str_upper (request_method r1))"
  let ?m2 = "percent_encode (str_upper (request_method r2))"
  let ?u1 = "percent_encode (url_base (request_url r1))"
  let ?u2 = "percent_encode (url_base (request_url r2))"
  let ?p1 = "percent_encode (urlencode (sort_key fst (all_params ps1 r1)))"
  let ?p2 = "percent_encode (urlencode (sort_key fst (all_params ps2 r2)))"
  from assms have eq: "?m1 @ CHR ''&'' # (?u1 @ CHR ''&'' # ?p1) = ?m2 @ CHR ''&'' # (?u2 @ CHR ''&'' # ?p2)"
    by (simp add: signature_base_string_def)
  from split_at_sep [OF percent_encode_no_amp percent_encode_no_amp eq]
  have m: "?m1 = ?m2" and rest: "?u1 @ CHR ''&'' # ?p1 = ?u2 @ CHR ''&'' # ?p2"
    by simp_all
  from split_at_sep [OF percent_encode_no_amp percent_encode_no_amp rest]
  have u: "?u1 = ?u2" and p: "?p1 = ?p2"
    by simp_all
  from m u p show ?thesis
    by (auto dest!: percent_encode_inj urlencode_inj)
qed

lemma all_params_distinct:
  "distinct (map fst ps) \<Longrightarrow> distinct (map fst (all_params ps r))"
proof -
  have "distinct (map fst d) \<Longrightarrow>
      distinct (map fst (foldl (\<lambda>d (key, val). AList.update key val d) d q))" for d q
    by (induction q arbitrary: d) (simp_all add: split_beta distinct_update)
  then show "distinct (map fst ps) \<Longrightarrow> distinct (map fst (all_params ps r))"
    by (simp add: all_params_def)
qed

lemma sort_key_fst_unique:
  assumes "distinct (map fst xs)" and "distinct (map fst ys)" and "set xs = set ys"
  shows "sort_key fst xs = sort_key fst ys"
proof (rule map_sorted_distinct_set_unique [of fst])
  from assms(1) have "inj_on fst (set xs)" by (simp add: distinct_map)
  with assms(3) show "inj_on fst (set (sort_key fst xs) \<union> set (sort_key fst ys))" by simp
  show "sorted (map fst (sort_key fst xs))" "sorted (map fst (sort_key fst ys))" by simp_all
  show "distinct (map fst (sort_key fst xs))" using assms(1) by (simp add: distinct_map)
  show "distinct (map fst (sort_key fst ys))" using assms(2) by (simp add: distinct_map)
  show "set (sort_key fst xs) = set (sort_key fst ys)" using assms(3) by simp
qed

lemma same_params_same_signature:
  assumes "distinct (map fst ps)"
    and "str_upper (request_method r1) = str_upper (request_method r2)"
    and "url_base (request_url r1) = url_base (request_url r2)"
    and "set (all_params ps r1) = set (all_params ps r2)"
  shows "compute_signature self r1 ps = compute_signature self r2 ps"
proof -
  from assms(1) have "distinct (map fst (all_params ps r1))" "distinct (map fst (all_params ps r2))"
    by (rule all_params_distinct)+
  from sort_key_fst_unique [OF this assms(4)] assms(2,3)
  show ?thesis
    by (simp add: compute_signature_def signature_base_string_def)
qed

lemma authorization_header:
  "map_of (request_headers (auth_flow self nonce timestamp request)) ''Authorization'' =
     Some (build_header self
        (AList.update ''oauth_signature''
           (compute_signature self request (tba_oauth_params self nonce timestamp))
           (tba_oauth_params self nonce timestamp)))"
  by (simp add: auth_flow_def Let_def update_conv')

lemma url_base_inj:
  assumes "url_wellformed u" and "url_wellformed v" and "url_base u = url_base v"
  shows "url_scheme u = url_scheme v \<and> url_authority u = url_authority v
     \<and> url_path u = url_path v"
proof -
  from assms(3) have eq: "url_scheme u @ CHR '':'' # (''//'' @ url_authority u @ url_path u)
      = url_scheme v @ CHR '':'' # (''//'' @ url_authority v @ url_path v)"
    by (simp add: url_base_def)
  from assms(1,2) have "CHR '':'' \<notin> set (url_scheme u)" "CHR '':'' \<notin> set (url_scheme v)"
    by (simp_all add: url_wellformed_def)
  from split_at_sep [OF this eq] have s: "url_scheme u = url_scheme v"
    and ap: "url_authority u @ url_path u = url_authority v @ url_path v"
    by simp_all
  from assms(1,2) have na: "CHR ''/'' \<notin> set (url_authority u)" "CHR ''/'' \<notin> set (url_authority v)"
    and pu: "url_path u = [] \<or> hd (url_path u) = CHR ''/''"
    and pv: "url_path v = [] \<or> hd (url_path v) = CHR ''/''"
    by (simp_all add: url_wellformed_def)
  have "url_authority u = url_authority v \<and> url_path u = url_path v"
  proof (cases "url_path u")
    case Nil
    show ?thesis
    proof (cases "url_path v")
      case Nil
      with \<open>url_path u = []\<close> ap show ?thesis by simp
    next
      case (Cons c q)
      with pv have "c = CHR ''/''" by simp
      with Cons Nil ap have "CHR ''/'' \<in> set (url_authority u)" by simp
      with na show ?thesis by simp
    qed
  next
    case (Cons c p)
    with pu have c: "c = CHR ''/''" by simp
    show ?thesis
    proof (cases "url_path v")
      case Nil
      with Cons c ap have "CHR ''/'' \<in> set (url_authority v)"
        by (metis in_set_conv_decomp append_Nil2)
      with na show ?thesis by simp
    next
      case (Cons d q)
      with pv have d: "d = CHR ''/''" by simp
      from ap \<open>url_path u = c # p\<close> Cons c d
      have "url_authority u @ CHR ''/'' # p = url_authority v @ CHR ''/'' # q" by simp
      from split_at_sep [OF na this] \<open>url_path u = c # p\<close> Cons c d
      show ?thesis by simp
    qed
  qed
  with s show ?thesis by simp
qed

lemma encode_utf8_inj: "encode_utf8 s = encode_utf8 t \<Longrightarrow> s = t"
proof -
  have "unat (of_char c :: byte) = of_char c" for c
  proof -
    have "(of_char c :: byte) = of_nat (of_char c)" by (rule of_nat_of_char [symmetric])
    then have "unat (of_char c :: byte) = of_char c mod 256"
      by (simp only: unat_of_nat) simp
    with of_char_less_256 [of c] show ?thesis by simp
  qed
  then have "inj (of_char :: char \<Rightarrow> byte)"
    by (intro injI) (metis of_char_eq_iff)
  then show "encode_utf8 s = encode_utf8 t \<Longrightarrow> s = t"
    by (simp add: encode_utf8_def inj_map_eq_map)
qed

lemma length_b64encode: "length (b64encode bs) = 4 * ((length bs + 2) div 3)"
proof (induction bs rule: b64encode.induct)
  case (4 a b c rest)
  have "(length rest + 5) div 3 = Suc ((length rest + 2) div 3)" by presburger
  with 4 show ?case by (simp add: add.commute)
qed simp_all

lemma length_sha256: "length (sha256 m) = 32"
  by (simp add: sha256_def bytes_of_word_def split: prod.split)

lemma length_compute_signature: "length (compute_signature self r ps) = 44"
proof -
  have "length (hmac_sha256 k m) = 32" for k m
    by (simp add: hmac_sha256_def Let_def length_sha256)
  then show ?thesis
    by (simp add: compute_signature_def length_b64encode)
qed

lemma signatures_collide:
  "\<exists>m n. m \<noteq> n \<and> compute_signature self (request_at m) ps = compute_signature self (request_at n) ps"
proof -
  let ?f = "\<lambda>n. compute_signature self (request_at n) ps"
  have "range ?f \<subseteq> {s. set s \<subseteq> UNIV \<and> length s = 44}"
    by (auto simp: length_compute_signature)
  moreover have "finite {s :: string. set s \<subseteq> UNIV \<and> length s = 44}"
    by (rule finite_lists_length_eq) simp
  ultimately have "finite (range ?f)"
    by (rule finite_subset)
  then have "\<not> inj ?f"
    using finite_imageD by fastforce
  then show ?thesis
    by (auto simp: inj_on_def)
qed

lemma b64_char_inj:
  assumes "m < 64" and "n < 64" and "b64_char m = b64_char n"
  shows "m = n"
proof -
  have d: "distinct ''ABCDEFGHIJKLMNOPQRSTUVWXYZabcdefghijklmnopqrstuvwxyz0123456789+/''"
    by simp
  from assms show ?thesis
    unfolding b64_char_def by (subst (asm) nth_eq_iff_index_eq [OF d]) simp_all
qed

lemma sextet_less: "unat ((w :: 32 word) AND 63) < 64"
proof -
  have "w AND 63 \<le> 63"
    by (rule word_and_le1)
  then have "unat (w AND 63) \<le> unat (63 :: 32 word)"
    by (simp add: word_le_nat_alt)
  then show ?thesis
    by simp
qed

lemma triple_bits:
  "bit (push_bit 16 (ucast (a :: byte)) OR push_bit 8 (ucast (b :: byte)) OR ucast (c :: byte) :: 32 word) n
     \<longleftrightarrow> (if n < 8 then bit c n else if n < 16 then bit b (n - 8)
          else if n < 24 then bit a (n - 16) else False)"
  by (auto simp: bit_simps dest: bit_imp_le_length)

lemma sextet_bit_generic:
  fixes w v :: "32 word"
  assumes "drop_bit n w AND mask 6 = drop_bit n v AND mask 6" and "k < 6"
  shows "bit w (n + k) \<longleftrightarrow> bit v (n + k)"
proof -
  from assms(1) have "bit (drop_bit n w AND mask 6) k \<longleftrightarrow> bit (drop_bit n v AND mask 6) k"
    by simp
  with assms(2) show ?thesis
    by (simp add: bit_and_iff bit_drop_bit_eq bit_mask_iff)
qed

lemma sextet_bits:
  assumes "b64_quad a b c i = b64_quad a' b' c' i" and "k < 6"
  shows "bit (push_bit 16 (ucast a) OR push_bit 8 (ucast b) OR ucast c :: 32 word) (6 * (3 - i) + k)
     \<longleftrightarrow> bit (push_bit 16 (ucast a') OR push_bit 8 (ucast b') OR ucast c' :: 32 word) (6 * (3 - i) + k)"
proof -
  let ?w = "push_bit 16 (ucast a) OR push_bit 8 (ucast b) OR ucast c :: 32 word"
  let ?v = "push_bit 16 (ucast a') OR push_bit 8 (ucast b') OR ucast c' :: 32 word"
  from assms(1) have "unat (drop_bit (6 * (3 - i)) ?w AND 63) = unat (drop_bit (6 * (3 - i)) ?v AND 63)"
    unfolding b64_quad_def by (rule b64_char_inj [OF sextet_less sextet_less])
  then have e: "drop_bit (6 * (3 - i)) ?w AND 63 = drop_bit (6 * (3 - i)) ?v AND 63"
    by (simp only: word_unat_eq_iff)
  have m: "(63 :: 32 word) = mask 6"
    by (simp add: mask_eq_exp_minus_1)
  from e have "drop_bit (6 * (3 - i)) ?w AND mask 6 = drop_bit (6 * (3 - i)) ?v AND mask 6"
    by (simp only: m)
  from sextet_bit_generic [OF this assms(2)] show ?thesis .
qed

lemma quad_inj_a:
  assumes "b64_quad a b c 0 = b64_quad a' b' c' 0" and "b64_quad a b c 1 = b64_quad a' b' c' 1"
  shows "a = a'"
proof (rule bit_eqI)
  fix k
  assume "possible_bit TYPE(byte) k"
  then have k: "k < 8"
    by (simp add: possible_bit_def)
  show "bit a k \<longleftrightarrow> bit a' k"
  proof (cases "k < 2")
    case True
    then have "k + 4 < 6" by simp
    from sextet_bits [OF assms(2) this] True show ?thesis
      by (simp add: triple_bits)
  next
    case False
    with k have "k - 2 < 6" by simp
    from sextet_bits [OF assms(1) this] False k show ?thesis
      by (simp add: triple_bits)
  qed
qed

lemma quad_inj_b:
  assumes "b64_quad a b c 1 = b64_quad a' b' c' 1" and "b64_quad a b c 2 = b64_quad a' b' c' 2"
  shows "b = b'"
proof (rule bit_eqI)
  fix k
  assume "possible_bit TYPE(byte) k"
  then have k: "k < 8"
    by (simp add: possible_bit_def)
  show "bit b k \<longleftrightarrow> bit b' k"
  proof (cases "k < 4")
    case True
    then have "k + 2 < 6" by simp
    from sextet_bits [OF assms(2) this] True show ?thesis
      by (simp add: triple_bits)
  next
    case False
    with k have "k - 4 < 6" by simp
    from sextet_bits [OF assms(1) this] False k show ?thesis
      by (simp add: triple_bits)
  qed
qed

lemma quad_inj_c:
  assumes "b64_quad a b c 2 = b64_quad a' b' c' 2" and "b64_quad a b c 3 = b64_quad a' b' c' 3"
  shows "c = c'"
proof (rule bit_eqI)
  fix k
  assume "possible_bit TYPE(byte) k"
  then have k: "k < 8"
    by (simp add: possible_bit_def)
  show "bit c k \<longleftrightarrow> bit c' k"
  proof (cases "k < 6")
    case True
    from sextet_bits [OF assms(2) True] True show ?thesis
      by (simp add: triple_bits)
  next
    case False
    with k have "k - 6 < 6" by simp
    from sextet_bits [OF assms(1) this] False k show ?thesis
      by (simp add: triple_bits)
  qed
qed

lemma b64encode_inj:
  "length xs = length ys \<Longrightarrow> b64encode xs = b64encode ys \<Longrightarrow> xs = ys"
proof (induction xs arbitrary: ys rule: b64encode.induct)
  case 1
  then show ?case by simp
next
  case (2 a)
  then obtain a' where ys: "ys = [a']"
    by (cases ys) auto
  with 2 show ?case
    by (auto dest: quad_inj_a)
next
  case (3 a b)
  then obtain a' b' where ys: "ys = [a', b']"
    by (cases ys; cases "tl ys") auto
  with 3 show ?case
    by (auto dest: quad_inj_a quad_inj_b [unfolded One_nat_def])
next
  case (4 a b c rest)
  then obtain a' b' c' rest' where ys: "ys = a' # b' # c' # rest'"
    by (cases ys; cases "tl ys"; cases "tl (tl ys)") auto
  with 4 have "a = a'" "b = b'" "c = c'" "b64encode rest = b64encode rest'" "length rest = length rest'"
    by (auto dest: quad_inj_a quad_inj_b [unfolded One_nat_def] quad_inj_c)
  with 4 ys show ?case
    by simp
qed

lemma length_hmac_sha256: "length (hmac_sha256 k m) = 32"
  by (simp add: hmac_sha256_def Let_def length_sha256)

lemma signature_eq_iff_digest_eq:
  "compute_signature self ra ps = compute_signature self rb ps \<longleftrightarrow>
     hmac_sha256 (encode_utf8 (signing_key self)) (encode_utf8 (signature_base_string ra ps)) =
     hmac_sha256 (encode_utf8 (signing_key self)) (encode_utf8 (signature_base_string rb ps))"
  unfolding compute_signature_def
  by (auto dest: b64encode_inj [rotated] simp: length_hmac_sha256)

text \<open>
  The hash is the one \<^verbatim>\<open>hashlib\<close> computes: the digest of \<^verbatim>\<open>abc\<close> from FIPS 180-4, and the
  padding cases of RFC 4648.
\<close>

lemma sha256_abc:
  "sha256 (encode_utf8 ''abc'') =
     [186, 120, 22, 191, 143, 1, 207, 234, 65, 65, 64, 222, 93, 174, 34, 35,
      176, 3, 97, 163, 150, 23, 122, 156, 180, 16, 255, 97, 242, 0, 21, 173]"
  by code_simp

lemma b64encode_examples:
  "b64encode (encode_utf8 ''a'') = ''YQ==''"
  "b64encode (encode_utf8 ''ab'') = ''YWI=''"
  "b64encode (encode_utf8 ''abc'') = ''YWJj''"
  by code_simp+

text \<open>
  Claim C2, as stated, fails in its second part, in two ways. The query strings
  \<^verbatim>\<open>a=1&b=2\<close> and \<^verbatim>\<open>b=2&a=1\<close> differ, and the two requests get the same signature, because
  the merged parameters are sorted before they are signed. And a signature is one of
  finitely many strings of 44 characters, so among the requests for the paths \<^verbatim>\<open>/\<close>,
  \<^verbatim>\<open>/a\<close>, \<^verbatim>\<open>/aa\<close>, ... two with different paths get the same signature.
\<close>

theorem signature_query_order_counterexample:
  "request_method request_ab = request_method request_ba
   \<and> url_path (request_url request_ab) = url_path (request_url request_ba)
   \<and> url_query (request_url request_ab) \<noteq> url_query (request_url request_ba)
   \<and> compute_signature example_auth request_ab
        (tba_oauth_params example_auth ''abcd'' ''1700000000'') =
      compute_signature example_auth request_ba
        (tba_oauth_params example_auth ''abcd'' ''1700000000'')
   \<and> (\<exists>m n. url_path (request_url (request_at m)) \<noteq> url_path (request_url (request_at n))
         \<and> url_query (request_url (request_at m)) = url_query (request_url (request_at n))
         \<and> compute_signature example_auth (request_at m)
              (tba_oauth_params example_auth ''abcd'' ''1700000000'') =
            compute_signature example_auth (request_at n)
              (tba_oauth_params example_auth ''abcd'' ''1700000000''))"
proof -
  let ?ps = "tba_oauth_params example_auth ''abcd'' ''1700000000''"
  have d: "distinct (map fst ?ps)"
    by (simp add: tba_oauth_params_def)
  have s: "set (all_params ?ps request_ab) = set (all_params ?ps request_ba)"
    by (auto simp: all_params_def request_ab_def request_ba_def tba_oauth_params_def)
  have order: "compute_signature example_auth request_ab ?ps
      = compute_signature example_auth request_ba ?ps"
    by (rule same_params_same_signature [OF d _ _ s])
       (simp_all add: request_ab_def request_ba_def url_base_def)
  from signatures_collide [of example_auth ?ps] obtain m n where mn: "m \<noteq> n"
    and c: "compute_signature example_auth (request_at m) ?ps
        = compute_signature example_auth (request_at n) ?ps"
    by blast
  from mn have "replicate m CHR ''a'' \<noteq> replicate n CHR ''a''"
    by (metis length_replicate)
  then have "url_path (request_url (request_at m)) \<noteq> url_path (request_url (request_at n))
         \<and> url_query (request_url (request_at m)) = url_query (request_url (request_at n))"
    by (simp add: request_at_def)
  with c have "\<exists>m n. url_path (request_url (request_at m)) \<noteq> url_path (request_url (request_at n))
         \<and> url_query (request_url (request_at m)) = url_query (request_url (request_at n))
         \<and> compute_signature example_auth (request_at m) ?ps
            = compute_signature example_auth (request_at n) ?ps"
    by blast
  with order show ?thesis
    by (simp add: request_ab_def request_ba_def)
qed

text \<open>
  Claim C2, amended. With nonce and timestamp fixed, two requests with the same method and
  URL get the same \<^verbatim>\<open>Authorization\<close> header, byte for byte, and the same signature, whatever
  their bodies and other headers are: the body is no input of the signature. The signature
  is the Base64 text of the HMAC-SHA256, under the signing key, of the signature base
  string, and two signatures are equal exactly when the two digests are. Two requests whose URLs differ before the query (in particular in the path, for
  URLs as \<^verbatim>\<open>httpx\<close> parses them), or whose query strings merge with the OAuth parameters to
  different dictionaries, are signed over different base strings, so their signatures
  differ unless HMAC-SHA256 collides on the two. Two requests whose methods agree up to
  case, whose URLs agree before the query, and whose query strings merge to the same
  dictionary (as the same parameters in another order do) get the same signature.
\<close>

theorem tba_signature_over_base_string:
  "(request_method ra = request_method rb \<and> request_url ra = request_url rb \<longrightarrow>
      map_of (request_headers (auth_flow self nonce timestamp ra)) ''Authorization'' =
        map_of (request_headers (auth_flow self nonce timestamp rb)) ''Authorization''
      \<and> map_of (request_headers (auth_flow self nonce timestamp ra)) ''Authorization'' \<noteq> None
      \<and> compute_signature self ra ps = compute_signature self rb ps)
   \<and> compute_signature self (r\<lparr>request_content := b\<rparr>) ps = compute_signature self r ps
   \<and> compute_signature self r ps =
        b64encode (hmac_sha256 (encode_utf8 (signing_key self))
          (encode_utf8 (signature_base_string r ps)))
   \<and> ((compute_signature self ra ps = compute_signature self rb ps) =
       (hmac_sha256 (encode_utf8 (signing_key self)) (encode_utf8 (signature_base_string ra ps)) =
        hmac_sha256 (encode_utf8 (signing_key self)) (encode_utf8 (signature_base_string rb ps))))
   \<and> (url_base (request_url ra) \<noteq> url_base (request_url rb)
       \<or> (url_wellformed (request_url ra) \<and> url_wellformed (request_url rb)
           \<and> url_path (request_url ra) \<noteq> url_path (request_url rb))
       \<or> set (all_params ps ra) \<noteq> set (all_params ps rb) \<longrightarrow>
         encode_utf8 (signature_base_string ra ps) \<noteq> encode_utf8 (signature_base_string rb ps))
   \<and> (distinct (map fst ps)
       \<and> str_upper (request_method ra) = str_upper (request_method rb)
       \<and> url_base (request_url ra) = url_base (request_url rb)
       \<and> set (all_params ps ra) = set (all_params ps rb) \<longrightarrow>
         compute_signature self ra ps = compute_signature self rb ps)"
proof (intro conjI impI)
  assume same: "request_method ra = request_method rb \<and> request_url ra = request_url rb"
  then have sig: "compute_signature self ra qs = compute_signature self rb qs" for qs
    by (simp add: compute_signature_def signature_base_string_def all_params_def)
  show "map_of (request_headers (auth_flow self nonce timestamp ra)) ''Authorization'' =
        map_of (request_headers (auth_flow self nonce timestamp rb)) ''Authorization''"
    by (simp only: authorization_header sig)
  show "map_of (request_headers (auth_flow self nonce timestamp ra)) ''Authorization'' \<noteq> None"
    by (simp only: authorization_header) simp
  show "compute_signature self ra ps = compute_signature self rb ps"
    by (rule sig)
next
  show "compute_signature self (r\<lparr>request_content := b\<rparr>) ps = compute_signature self r ps"
    by (simp add: compute_signature_def signature_base_string_def all_params_def)
next
  show "compute_signature self r ps =
        b64encode (hmac_sha256 (encode_utf8 (signing_key self))
          (encode_utf8 (signature_base_string r ps)))"
    by (simp only: compute_signature_def)
next
  show "(compute_signature self ra ps = compute_signature self rb ps) =
       (hmac_sha256 (encode_utf8 (signing_key self)) (encode_utf8 (signature_base_string ra ps)) =
        hmac_sha256 (encode_utf8 (signing_key self)) (encode_utf8 (signature_base_string rb ps)))"
    by (rule signature_eq_iff_digest_eq)
next
  assume h: "url_base (request_url ra) \<noteq> url_base (request_url rb)
       \<or> (url_wellformed (request_url ra) \<and> url_wellformed (request_url rb)
           \<and> url_path (request_url ra) \<noteq> url_path (request_url rb))
       \<or> set (all_params ps ra) \<noteq> set (all_params ps rb)"
  have "signature_base_string ra ps \<noteq> signature_base_string rb ps"
  proof
    assume "signature_base_string ra ps = signature_base_string rb ps"
    from base_string_inj [OF this]
    have u: "url_base (request_url ra) = url_base (request_url rb)"
      and p: "sort_key fst (all_params ps ra) = sort_key fst (all_params ps rb)"
      by simp_all
    from p have "set (all_params ps ra) = set (all_params ps rb)"
      by (metis set_sort)
    with h u have "url_wellformed (request_url ra) \<and> url_wellformed (request_url rb)
           \<and> url_path (request_url ra) \<noteq> url_path (request_url rb)"
      by blast
    with url_base_inj [of "request_url ra" "request_url rb"] u show False
      by blast
  qed
  then show "encode_utf8 (signature_base_string ra ps) \<noteq> encode_utf8 (signature_base_string rb ps)"
    using encode_utf8_inj by blast
next
  assume "distinct (map fst ps)
       \<and> str_upper (request_method ra) = str_upper (request_method rb)
       \<and> url_base (request_url ra) = url_base (request_url rb)
       \<and> set (all_params ps ra) = set (all_params ps rb)"
  then show "compute_signature self ra ps = compute_signature self rb ps"
    using same_params_same_signature [of ps ra rb self] by blast
qed

text \<open>
  An instance: the request for \<^verbatim>\<open>customer?a=1&b=2\<close> with and without a body, and the same
  request for the path \<^verbatim>\<open>/a\<close>.
\<close>

theorem tba_signature_over_base_string_witness:
  "map_of (request_headers (auth_flow example_auth ''abcd'' ''1700000000''
        (request_ab\<lparr>request_content := ''{}''\<rparr>))) ''Authorization'' =
     map_of (request_headers (auth_flow example_auth ''abcd'' ''1700000000'' request_ab))
       ''Authorization''
   \<and> compute_signature example_auth (request_ab\<lparr>request_content := ''{}''\<rparr>)
        (tba_oauth_params example_auth ''abcd'' ''1700000000'') =
      compute_signature example_auth request_ab
        (tba_oauth_params example_auth ''abcd'' ''1700000000'')
   \<and> encode_utf8 (signature_base_string (request_at 1)
        (tba_oauth_params example_auth ''abcd'' ''1700000000'')) \<noteq>
      encode_utf8 (signature_base_string request_ab
        (tba_oauth_params example_auth ''abcd'' ''1700000000''))"
  using tba_signature_over_base_string
    [where ra = "request_ab\<lparr>request_content := ''{}''\<rparr>" and rb = request_ab
       and self = example_auth and nonce = "''abcd''" and timestamp = "''1700000000''"
       and ps = "tba_oauth_params example_auth ''abcd'' ''1700000000''"
       and r = request_ab and b = "''{}''"]
    tba_signature_over_base_string
    [where ra = "request_at 1" and rb = request_ab
       and self = example_auth and nonce = "''abcd''" and timestamp = "''1700000000''"
       and ps = "tba_oauth_params example_auth ''abcd'' ''1700000000''"
       and r = request_ab and b = "''{}''"]
  by (simp add: request_ab_def request_at_def url_wellformed_def)

end
